theory Spec2Isabelle
  imports Complex_Main "HOL-Library.AList"
begin

section \<open>Python values\<close>

text \<open>
  The values that flow through \<^verbatim>\<open>problems/__init__.py\<close> and \<^verbatim>\<open>problems/Lshape.py\<close>.
  A \<^verbatim>\<open>dict\<close> with string keys is an association list with distinct keys; lookup is
  \<open>map_of\<close>, item assignment \<^verbatim>\<open>d[k] = v\<close> is \<open>AList.update\<close> (an existing key keeps its
  place, a new key is appended). Where the code changes a dictionary in place and the
  sharing of dictionaries matters (\<^verbatim>\<open>recursive_update\<close>), dictionaries are objects in a
  store instead. A float literal is represented by the real number it denotes. The
  objects of the finite-element library are represented by what the code of this
  repository reads from them: a mesh by its geometric dimension, a \<^verbatim>\<open>Constant\<close> by its
  value, any other library object by its class name and constructor arguments, a
  module-level function that is passed around by its name.
\<close>

datatype pyval =
    PNone
  | PBool bool
  | PInt int
  | PFloat real
  | PStr string
  | PTuple "pyval list"
  | PList "pyval list"
  | PDict "(string \<times> pyval) list"
  | PMesh nat
  | PConstant pyval
  | PObject string "pyval list"
  | PFunction string

type_synonym pydict = "(string \<times> pyval) list"

text \<open>\<^verbatim>\<open>dst.update(src)\<close>: every item of \<open>src\<close> is assigned into \<open>dst\<close>, in order.\<close>

definition dict_update :: "pydict \<Rightarrow> pydict \<Rightarrow> pydict" where
  "dict_update dst src = fold (\<lambda>(k, v) d. AList.update k v d) src dst"

section \<open>Deep merge of parameter dictionaries\<close>

text \<open>
  The deep merge as the specification words it, on dictionaries as values: "for every
  key in source: if the key exists in destination and both values are mappings,
  recursively merge; otherwise the source value replaces the destination value". It
  is what the function \<^verbatim>\<open>recursive_update\<close> of the code, which works on dictionary
  objects in place and is modelled further down, is compared with.
\<close>

fun deep_merge :: "pydict \<Rightarrow> pydict \<Rightarrow> pydict" where
  "deep_merge dst [] = dst"
| "deep_merge dst ((key, val) # rest) =
     (case (map_of dst key, val) of
        (Some (PDict d), PDict s) \<Rightarrow>
          deep_merge (AList.update key (PDict (deep_merge d s)) dst) rest
      | _ \<Rightarrow> deep_merge (AList.update key val dst) rest)"

section \<open>The default parameters and the L-shape overrides\<close>

text \<open>
  \<^verbatim>\<open>NS_parameters = dict(nu = 0.01, ..., krylov_solvers = dict(...))\<close> of
  \<^verbatim>\<open>problems/__init__.py\<close>, item by item in the order of the source.
\<close>

definition krylov_solvers :: pydict where
  "krylov_solvers =
    [(''monitor_convergence'', PBool False),
     (''report'', PBool False),
     (''error_on_nonconvergence'', PBool False),
     (''nonzero_initial_guess'', PBool True),
     (''maximum_iterations'', PInt 200),
     (''relative_tolerance'', PFloat (1 / 10 ^ 8)),
     (''absolute_tolerance'', PFloat (1 / 10 ^ 8))]"

definition NS_parameters :: pydict where
  "NS_parameters =
    [(''nu'', PFloat (1 / 100)),
     (''t'', PFloat 0),
     (''tstep'', PInt 0),
     (''T'', PFloat 1),
     (''dt'', PFloat (1 / 100)),
     (''AB_projection_pressure'', PBool False),
     (''velocity_degree'', PInt 2),
     (''pressure_degree'', PInt 1),
     (''solver'', PStr ''IPCS_ABCN''),
     (''max_iter'', PInt 1),
     (''max_error'', PFloat (1 / 10 ^ 6)),
     (''iters_on_first_timestep'', PInt 2),
     (''use_krylov_solvers'', PBool False),
     (''low_memory_version'', PBool False),
     (''print_intermediate_info'', PInt 10),
     (''print_velocity_pressure_convergence'', PBool False),
     (''velocity_update_type'', PStr ''default''),
     (''plot_interval'', PInt 10),
     (''checkpoint'', PInt 10),
     (''save_step'', PInt 10),
     (''folder'', PStr ''results''),
     (''restart_folder'', PNone),
     (''output_timeseries_as_vector'', PBool True),
     (''krylov_solvers'', PDict krylov_solvers)]"

text \<open>
  \<^verbatim>\<open>problems/Lshape.py\<close>: \<^verbatim>\<open>Re = 200.\<close>, \<^verbatim>\<open>nu = 1./Re\<close> and
  \<^verbatim>\<open>NS_parameters.update(dict(nu = nu, T = 10, ...))\<close>.
\<close>

definition Re :: real where
  "Re = 200"

definition nu :: real where
  "nu = 1 / Re"

definition Lshape_overrides :: pydict where
  "Lshape_overrides =
    [(''nu'', PFloat nu),
     (''T'', PInt 10),
     (''dt'', PFloat (1 / 100)),
     (''Re'', PFloat Re),
     (''Nx'', PInt 40),
     (''Ny'', PInt 40),
     (''folder'', PStr ''Lshape_results''),
     (''max_iter'', PInt 1),
     (''plot_interval'', PInt 1),
     (''velocity_degree'', PInt 2),
     (''velocity_update_type'', PStr ''lumping''),
     (''use_krylov_solvers'', PBool True)]"

definition Lshape_NS_parameters :: pydict where
  "Lshape_NS_parameters = dict_update NS_parameters Lshape_overrides"

text \<open>A scalar is a value that is not a container: what \<^verbatim>\<open>isinstance(v, dict)\<close> and the
  like reject.\<close>

fun is_scalar :: "pyval \<Rightarrow> bool" where
  "is_scalar PNone = True"
| "is_scalar (PBool _) = True"
| "is_scalar (PInt _) = True"
| "is_scalar (PFloat _) = True"
| "is_scalar (PStr _) = True"
| "is_scalar _ = False"

section \<open>The default boundary-condition builder\<close>

text \<open>\<^verbatim>\<open>dict(pairs)\<close>: the pairs are inserted in order into an empty dictionary, a later
  pair overwriting an earlier one with the same key.\<close>

definition py_dict :: "(string \<times> pyval) list \<Rightarrow> pydict" where
  "py_dict ps = dict_update [] ps"

text \<open>
  \<^verbatim>\<open>
  def create_bcs(sys_comp, **NS_namespace):
      return dict((ui, []) for ui in sys_comp)
  \<close>
\<close>

definition create_bcs :: "string list \<Rightarrow> pydict \<Rightarrow> pydict" where
  "create_bcs sys_comp NS_namespace = py_dict (map (\<lambda>ui. (ui, PList [])) sys_comp)"

section \<open>Errors, effects and keyword calls\<close>

text \<open>
  An exception is a value of \<open>py_error\<close>; a function that may raise returns
  \<open>py_error + 'a\<close> with \<open>Inl\<close> the exception. What a function does to the world
  outside its own frame is a list of events, in the order they happen: a printed line,
  a call of the library's \<^verbatim>\<open>plot\<close>, an \<^verbatim>\<open>assign\<close> to a library object, an attribute
  assignment on a module-level object.
\<close>

datatype py_error =
    TypeError
  | KeyError
  | IndexError
  | ZeroDivisionError
  | AttributeError
  | NameError
  | ValueError
  | RuntimeError

datatype event =
    Print string
  | Plot pyval string
  | Assign pyval pyval
  | SetAttr string string pyval

type_synonym outcome = "(py_error + pyval) \<times> event list"

text \<open>
  A call \<^verbatim>\<open>f(**ctx)\<close> of a function \<^verbatim>\<open>def f(p1, ..., pn, **NS_namespace)\<close>: every named
  parameter takes its value from \<open>ctx\<close> (a missing one is a \<^verbatim>\<open>TypeError\<close>, none of the
  hooks has a default value), and the items left over make up \<^verbatim>\<open>NS_namespace\<close>.
\<close>

fun bind_kwargs :: "string list \<Rightarrow> pydict \<Rightarrow> py_error + (pyval list \<times> pydict)" where
  "bind_kwargs [] ctx = Inr ([], ctx)"
| "bind_kwargs (p # ps) ctx =
     (case map_of ctx p of
        None \<Rightarrow> Inl TypeError
      | Some v \<Rightarrow>
          (case bind_kwargs ps (AList.delete p ctx) of
             Inl e \<Rightarrow> Inl e
           | Inr (vs, ns) \<Rightarrow> Inr (v # vs, ns)))"

text \<open>A hook: the names of its parameters and its body, which receives the bound
  arguments in the order of the parameters, and \<^verbatim>\<open>NS_namespace\<close>.\<close>

record hook =
  param_names :: "string list"
  hook_body :: "pyval list \<Rightarrow> pydict \<Rightarrow> outcome"

definition call_hook :: "hook \<Rightarrow> pydict \<Rightarrow> outcome" where
  "call_hook h ctx =
     (case bind_kwargs (param_names h) ctx of
        Inl e \<Rightarrow> (Inl e, [])
      | Inr (args, ns) \<Rightarrow> hook_body h args ns)"

text \<open>A list (or tuple) of names, as the driver passes \<^verbatim>\<open>sys_comp\<close> and
  \<^verbatim>\<open>scalar_components\<close>. The hooks iterate over it and use the items as dictionary
  keys; only sequences of strings are covered, any other value is answered with
  \<^verbatim>\<open>TypeError\<close>.\<close>

fun py_name :: "pyval \<Rightarrow> string option" where
  "py_name (PStr s) = Some s"
| "py_name _ = None"

definition py_names :: "pyval \<Rightarrow> py_error + string list" where
  "py_names v =
     (case v of
        PList xs \<Rightarrow>
          (if list_all (\<lambda>x. py_name x \<noteq> None) xs then Inr (map (\<lambda>x. the (py_name x)) xs)
           else Inl TypeError)
      | PTuple xs \<Rightarrow>
          (if list_all (\<lambda>x. py_name x \<noteq> None) xs then Inr (map (\<lambda>x. the (py_name x)) xs)
           else Inl TypeError)
      | _ \<Rightarrow> Inl TypeError)"

section \<open>The default hooks of \<^verbatim>\<open>problems/__init__.py\<close>\<close>

text \<open>
  \<^verbatim>\<open>
  def body_force(mesh, **NS_namespace):
      return Constant((0,)*mesh.geometry().dim())
  \<close>
  Only a mesh has \<^verbatim>\<open>geometry()\<close>.
\<close>

definition body_force :: "pyval \<Rightarrow> pydict \<Rightarrow> outcome" where
  "body_force mesh NS_namespace =
     (case mesh of
        PMesh d \<Rightarrow> (Inr (PConstant (PTuple (replicate d (PInt 0)))), [])
      | _ \<Rightarrow> (Inl AttributeError, []))"

text \<open>
  \<^verbatim>\<open>
  def scalar_source(scalar_components, **NS_namespace):
      return dict((ci, Constant(0)) for ci in scalar_components)
  \<close>
\<close>

definition scalar_source :: "string list \<Rightarrow> pydict \<Rightarrow> pydict" where
  "scalar_source scalar_components NS_namespace =
     py_dict (map (\<lambda>ci. (ci, PConstant (PInt 0))) scalar_components)"

text \<open>The hooks whose body is \<^verbatim>\<open>pass\<close> return \<^verbatim>\<open>None\<close>;
  \<^verbatim>\<open>pre_solve_hook\<close> returns \<^verbatim>\<open>{}\<close>.\<close>

definition initialize :: "pydict \<Rightarrow> outcome" where
  "initialize NS_namespace = (Inr PNone, [])"

definition velocity_tentative_hook :: "pydict \<Rightarrow> outcome" where
  "velocity_tentative_hook NS_namespace = (Inr PNone, [])"

definition pressure_hook :: "pydict \<Rightarrow> outcome" where
  "pressure_hook NS_namespace = (Inr PNone, [])"

definition scalar_hook :: "pydict \<Rightarrow> outcome" where
  "scalar_hook NS_namespace = (Inr PNone, [])"

definition start_timestep_hook :: "pydict \<Rightarrow> outcome" where
  "start_timestep_hook NS_namespace = (Inr PNone, [])"

definition temporal_hook :: "pydict \<Rightarrow> outcome" where
  "temporal_hook NS_namespace = (Inr PNone, [])"

definition pre_solve_hook :: "pydict \<Rightarrow> outcome" where
  "pre_solve_hook NS_namespace = (Inr (PDict []), [])"

definition theend_hook :: "pydict \<Rightarrow> outcome" where
  "theend_hook NS_namespace = (Inr PNone, [])"

text \<open>The hooks as the driver calls them, by keyword.\<close>

definition hook0 :: "(pydict \<Rightarrow> outcome) \<Rightarrow> hook" where
  "hook0 f = \<lparr>param_names = [], hook_body = (\<lambda>args ns. f ns)\<rparr>"

definition hook1 :: "string \<Rightarrow> (pyval \<Rightarrow> pydict \<Rightarrow> outcome) \<Rightarrow> hook" where
  "hook1 p f =
     \<lparr>param_names = [p],
      hook_body = (\<lambda>args ns. case args of [a] \<Rightarrow> f a ns | _ \<Rightarrow> (Inl TypeError, []))\<rparr>"

definition names_arg :: "(string list \<Rightarrow> pydict \<Rightarrow> pydict) \<Rightarrow> pyval \<Rightarrow> pydict \<Rightarrow> outcome" where
  "names_arg f v ns =
     (case py_names v of
        Inl e \<Rightarrow> (Inl e, [])
      | Inr names \<Rightarrow> (Inr (PDict (f names ns)), []))"

definition body_force_kw :: hook where
  "body_force_kw = hook1 ''mesh'' body_force"

definition scalar_source_kw :: hook where
  "scalar_source_kw = hook1 ''scalar_components'' (names_arg scalar_source)"

definition create_bcs_kw :: hook where
  "create_bcs_kw = hook1 ''sys_comp'' (names_arg create_bcs)"

definition default_hooks :: "hook list" where
  "default_hooks =
     [body_force_kw, scalar_source_kw, hook0 initialize, create_bcs_kw,
      hook0 velocity_tentative_hook, hook0 pressure_hook, hook0 scalar_hook,
      hook0 start_timestep_hook, hook0 temporal_hook, hook0 pre_solve_hook,
      hook0 theend_hook]"

section \<open>The hooks of \<^verbatim>\<open>problems/Lshape.py\<close>\<close>

text \<open>\<^verbatim>\<open>p_in = Expression("sin(pi*t)", t=0.)\<close>\<close>

definition p_in :: pyval where
  "p_in = PObject ''Expression'' [PStr ''sin(pi*t)'', PFloat 0]"

text \<open>
  \<^verbatim>\<open>
  def create_bcs(V, Q, sys_comp, **NS_namespace):
      bcs = dict((ui, []) for ui in sys_comp)
      bc0 = DirichletBC(V, 0., walls)
      pc0 = DirichletBC(Q, p_in, inlet)
      pc1 = DirichletBC(Q, 0.0, outlet)
      bcs['u0'] = [bc0]
      bcs['u1'] = [bc0]
      bcs['p'] = [pc0, pc1]
      return bcs
  \<close>
\<close>

definition Lshape_create_bcs :: "pyval \<Rightarrow> pyval \<Rightarrow> string list \<Rightarrow> pydict \<Rightarrow> pydict" where
  "Lshape_create_bcs V Q sys_comp NS_namespace =
     (let bcs = py_dict (map (\<lambda>ui. (ui, PList [])) sys_comp);
          bc0 = PObject ''DirichletBC'' [V, PFloat 0, PFunction ''walls''];
          pc0 = PObject ''DirichletBC'' [Q, p_in, PFunction ''inlet''];
          pc1 = PObject ''DirichletBC'' [Q, PFloat 0, PFunction ''outlet''];
          bcs = AList.update ''u0'' (PList [bc0]) bcs;
          bcs = AList.update ''u1'' (PList [bc0]) bcs;
          bcs = AList.update ''p'' (PList [pc0, pc1]) bcs
      in bcs)"

text \<open>
  \<^verbatim>\<open>
  def pre_solve_hook(mesh, **NS_namespace):
      Vv = VectorFunctionSpace(mesh, 'CG', 1)
      return dict(Vv=Vv, uv=Function(Vv))
  \<close>
\<close>

definition Lshape_pre_solve_hook :: "pyval \<Rightarrow> pydict \<Rightarrow> outcome" where
  "Lshape_pre_solve_hook mesh NS_namespace =
     (let Vv = PObject ''VectorFunctionSpace'' [mesh, PStr ''CG'', PInt 1]
      in (Inr (PDict [(''Vv'', Vv), (''uv'', PObject ''Function'' [Vv])]), []))"

text \<open>
  \<^verbatim>\<open>
  def start_timestep_hook(t, **NS_namespace):
      p_in.t = t
  \<close>
\<close>

definition Lshape_start_timestep_hook :: "pyval \<Rightarrow> pydict \<Rightarrow> outcome" where
  "Lshape_start_timestep_hook t NS_namespace = (Inr PNone, [SetAttr ''p_in'' ''t'' t])"

text \<open>
  \<^verbatim>\<open>
  def temporal_hook(tstep, q_, u_, uv, Vv, plot_interval, **NS_namespace):
      if tstep % plot_interval == 0:
          plot(q_['p'], title="Pressure")
          uv.assign(project(u_, Vv))
          plot(uv, title="Velocity")
  \<close>
  \<open>tstep\<close> and \<open>plot_interval\<close> are the integers of the parameter set and \<open>q'\<close> (the
  source's \<^verbatim>\<open>q_\<close>) is the
  dictionary of the solution fields; values of other types are answered with
  \<^verbatim>\<open>TypeError\<close>.
\<close>

definition Lshape_temporal_hook ::
  "pyval \<Rightarrow> pyval \<Rightarrow> pyval \<Rightarrow> pyval \<Rightarrow> pyval \<Rightarrow> pyval \<Rightarrow> pydict \<Rightarrow> outcome" where
  "Lshape_temporal_hook tstep q' u' uv Vv plot_interval NS_namespace =
     (case (tstep, plot_interval) of
        (PInt a, PInt b) \<Rightarrow>
          if b = 0 then (Inl ZeroDivisionError, [])
          else if a mod b = 0 then
            (case q' of
               PDict d \<Rightarrow>
                 (case map_of d ''p'' of
                    None \<Rightarrow> (Inl KeyError, [])
                  | Some p \<Rightarrow>
                      (Inr PNone,
                       [Plot p ''Pressure'',
                        Assign uv (PObject ''project'' [u', Vv]),
                        Plot uv ''Velocity'']))
             | _ \<Rightarrow> (Inl TypeError, []))
          else (Inr PNone, [])
      | _ \<Rightarrow> (Inl TypeError, []))"

definition Lshape_create_bcs_kw :: hook where
  "Lshape_create_bcs_kw =
     \<lparr>param_names = [''V'', ''Q'', ''sys_comp''],
      hook_body = (\<lambda>args ns. case args of
                [V, Q, sys_comp] \<Rightarrow> names_arg (Lshape_create_bcs V Q) sys_comp ns
              | _ \<Rightarrow> (Inl TypeError, []))\<rparr>"

definition Lshape_pre_solve_hook_kw :: hook where
  "Lshape_pre_solve_hook_kw = hook1 ''mesh'' Lshape_pre_solve_hook"

definition Lshape_start_timestep_hook_kw :: hook where
  "Lshape_start_timestep_hook_kw = hook1 ''t'' Lshape_start_timestep_hook"

definition Lshape_temporal_hook_kw :: hook where
  "Lshape_temporal_hook_kw =
     \<lparr>param_names = [''tstep'', ''q_'', ''u_'', ''uv'', ''Vv'', ''plot_interval''],
      hook_body = (\<lambda>args ns. case args of
                [tstep, q', u', uv, Vv, plot_interval] \<Rightarrow>
                  Lshape_temporal_hook tstep q' u' uv Vv plot_interval ns
              | _ \<Rightarrow> (Inl TypeError, []))\<rparr>"

definition Lshape_hooks :: "hook list" where
  "Lshape_hooks =
     [Lshape_create_bcs_kw, Lshape_pre_solve_hook_kw, Lshape_start_timestep_hook_kw,
      Lshape_temporal_hook_kw]"

section \<open>The L-shaped mesh\<close>

text \<open>
  A point of the plane is a pair of coordinates, \<open>x[0]\<close> and \<open>x[1]\<close>; a cell of a mesh
  is the list of its vertices, and a mesh the list of its cells. Coordinates are real
  numbers, and the tolerance \<^verbatim>\<open>DOLFIN_EPS\<close> of the library is the parameter \<open>eps\<close>.
\<close>

type_synonym point = "real \<times> real"
type_synonym cell = "point list"

definition midpoint :: "cell \<Rightarrow> point" where
  "midpoint c =
     (sum_list (map fst c) / real (length c), sum_list (map snd c) / real (length c))"

text \<open>
  \<^verbatim>\<open>
  class Submesh(SubDomain):
      def inside(self, x, on_boundary):
          return x[0] > 0.25 - DOLFIN_EPS and x[1] > 0.25 - DOLFIN_EPS
  \<close>
\<close>

definition Submesh_inside :: "real \<Rightarrow> point \<Rightarrow> bool \<Rightarrow> bool" where
  "Submesh_inside eps x on_boundary \<longleftrightarrow> fst x > 1 / 4 - eps \<and> snd x > 1 / 4 - eps"

text \<open>
  The library's markers, as \<^verbatim>\<open>mesh\<close> uses them. A \<^verbatim>\<open>MeshFunction("size_t", mesh, 2)\<close>
  holds one marker for each cell. The program does not rely on what a new one holds,
  it overwrites all of it: \<open>uninitialised\<close> gives, for every index, the marker that
  happens to be there after the construction.
\<close>

definition MeshFunction :: "(nat \<Rightarrow> nat) \<Rightarrow> cell list \<Rightarrow> nat list" where
  "MeshFunction uninitialised mesh = map uninitialised [0..<length mesh]"

text \<open>
  Modelled from the spec: the marking and the extraction are the library's, and the
  specification describes them as "marking and extracting cells whose mesh markers
  satisfy a geometric predicate", the predicate marking "exactly the cells whose points
  satisfy" it and the returned mesh being "the extraction of the cells left unmarked
  (marker 0)". \<^verbatim>\<open>set_all(v)\<close> sets every marker to \<open>v\<close>; \<^verbatim>\<open>SubDomain.mark(mf, v)\<close> sets to
  \<open>v\<close> the marker of every cell whose vertices and midpoint are all \<^verbatim>\<open>inside\<close> (a cell
  is tested with \<open>on_boundary\<close> false) and leaves the other markers as they are;
  \<^verbatim>\<open>SubMesh(mesh, mf, v)\<close> keeps the cells whose marker is \<open>v\<close>, in their order.
\<close>

definition set_all :: "nat \<Rightarrow> nat list \<Rightarrow> nat list" where
  "set_all v mf = map (\<lambda>_. v) mf"

definition cell_inside :: "(point \<Rightarrow> bool \<Rightarrow> bool) \<Rightarrow> cell \<Rightarrow> bool" where
  "cell_inside inside c \<longleftrightarrow> list_all (\<lambda>x. inside x False) c \<and> inside (midpoint c) False"

definition mark :: "(point \<Rightarrow> bool \<Rightarrow> bool) \<Rightarrow> cell list \<Rightarrow> nat list \<Rightarrow> nat \<Rightarrow> nat list" where
  "mark inside mesh mf v = map (\<lambda>(c, m). if cell_inside inside c then v else m) (zip mesh mf)"

definition SubMesh :: "cell list \<Rightarrow> nat list \<Rightarrow> nat \<Rightarrow> cell list" where
  "SubMesh mesh mf v = map fst (filter (\<lambda>(c, m). m = v) (zip mesh mf))"

text \<open>
  \<^verbatim>\<open>
  def mesh(Nx, Ny, **params):
      mesh_ = UnitSquareMesh(Nx, Ny)
      subm = Submesh()
      mf1 = MeshFunction("size_t", mesh_, 2)
      mf1.set_all(0)
      subm.mark(mf1, 1)
      return SubMesh(mesh_, mf1, 0)
  \<close>
  The library's generator \<^verbatim>\<open>UnitSquareMesh\<close> is a parameter.
\<close>

definition Lshape_mesh ::
  "(int \<Rightarrow> int \<Rightarrow> py_error + cell list) \<Rightarrow> (nat \<Rightarrow> nat) \<Rightarrow> real \<Rightarrow> int \<Rightarrow> int \<Rightarrow> pydict
    \<Rightarrow> py_error + cell list" where
  "Lshape_mesh UnitSquareMesh uninitialised eps Nx Ny params =
     (case UnitSquareMesh Nx Ny of
        Inl e \<Rightarrow> Inl e
      | Inr mesh' \<Rightarrow>
          (let mf1 = MeshFunction uninitialised mesh';
               mf1 = set_all 0 mf1;
               mf1 = mark (Submesh_inside eps) mesh' mf1 1
           in Inr (SubMesh mesh' mf1 0)))"

text \<open>\<^verbatim>\<open>mesh(**ctx)\<close>, as the driver calls it.\<close>

definition Lshape_mesh_kw ::
  "(int \<Rightarrow> int \<Rightarrow> py_error + cell list) \<Rightarrow> (nat \<Rightarrow> nat) \<Rightarrow> real \<Rightarrow> pydict
    \<Rightarrow> py_error + cell list" where
  "Lshape_mesh_kw UnitSquareMesh uninitialised eps ctx =
     (case bind_kwargs [''Nx'', ''Ny''] ctx of
        Inl e \<Rightarrow> Inl e
      | Inr (args, params) \<Rightarrow>
          (case args of
             [PInt Nx, PInt Ny] \<Rightarrow> Lshape_mesh UnitSquareMesh uninitialised eps Nx Ny params
           | _ \<Rightarrow> Inl TypeError))"

text \<open>
  Modelled from the spec: the generator of the library, of which the specification
  says that it "covers the full unit square" at the resolution \<open>Nx\<close>, \<open>Ny\<close>. The unit
  square is cut into \<open>Nx\<close> times \<open>Ny\<close> equal rectangles, row by row, and every rectangle
  into two triangles along its diagonal; a resolution below one is refused.
\<close>

definition grid_cells :: "nat \<Rightarrow> nat \<Rightarrow> nat \<Rightarrow> nat \<Rightarrow> cell list" where
  "grid_cells Nx Ny i j =
     (let x0 = real i / real Nx; x1 = real (i + 1) / real Nx;
          y0 = real j / real Ny; y1 = real (j + 1) / real Ny
      in [[(x0, y0), (x1, y0), (x1, y1)], [(x0, y0), (x0, y1), (x1, y1)]])"

definition UnitSquareMesh :: "int \<Rightarrow> int \<Rightarrow> py_error + cell list" where
  "UnitSquareMesh Nx Ny =
     (if Nx < 1 \<or> Ny < 1 then Inl RuntimeError
      else Inr (concat (map (\<lambda>j. concat (map (\<lambda>i. grid_cells (nat Nx) (nat Ny) i j)
                                             [0..<nat Nx]))
                            [0..<nat Ny])))"

text \<open>The point of a cell with the barycentric coordinates \<open>w\<close>, one weight for each
  vertex: the points of the cell are those with weights that are not negative and add
  up to one.\<close>

definition cell_point :: "real list \<Rightarrow> cell \<Rightarrow> point" where
  "cell_point w c =
     (sum_list (map2 (\<lambda>a x. a * fst x) w c), sum_list (map2 (\<lambda>a x. a * snd x) w c))"

section \<open>The boundaries of the L-shape problem\<close>

text \<open>
  \<^verbatim>\<open>
  def inlet(x, on_boundary):
      return near(x[1] - 1., 0.) and on_boundary
  def outlet(x, on_boundary):
      return near(x[0] - 1., 0.) and on_boundary
  def walls(x, on_boundary):
      return (near(x[0], 0.) or near(x[1], 0.) or
              (x[0] > 0.25 - 5*DOLFIN_EPS  and
               x[1] > 0.25 - 5*DOLFIN_EPS) and on_boundary)
  \<close>
  The library's \<^verbatim>\<open>near\<close> is a parameter. In Python \<^verbatim>\<open>and\<close> binds tighter than
  \<^verbatim>\<open>or\<close>: the expression of \<^verbatim>\<open>walls\<close> is read as written below.
\<close>

definition inlet :: "(real \<Rightarrow> real \<Rightarrow> bool) \<Rightarrow> point \<Rightarrow> bool \<Rightarrow> bool" where
  "inlet near x on_boundary \<longleftrightarrow> near (snd x - 1) 0 \<and> on_boundary"

definition outlet :: "(real \<Rightarrow> real \<Rightarrow> bool) \<Rightarrow> point \<Rightarrow> bool \<Rightarrow> bool" where
  "outlet near x on_boundary \<longleftrightarrow> near (fst x - 1) 0 \<and> on_boundary"

definition walls :: "(real \<Rightarrow> real \<Rightarrow> bool) \<Rightarrow> real \<Rightarrow> point \<Rightarrow> bool \<Rightarrow> bool" where
  "walls near eps x on_boundary \<longleftrightarrow>
     (near (fst x) 0 \<or> (near (snd x) 0 \<or>
       (((fst x > 1 / 4 - 5 * eps) \<and> (snd x > 1 / 4 - 5 * eps)) \<and> on_boundary)))"

section \<open>Console output on process 0\<close>

text \<open>
  \<^verbatim>\<open>
  RED   = "\033[1;37;31m%s\033[0m"
  BLUE  = "\033[1;37;34m%s\033[0m"
  GREEN = "\033[1;37;32m%s\033[0m"
  \<close>
  \<open>BLUE s\<close> is \<^verbatim>\<open>BLUE % s\<close> for a string \<open>s\<close>.
\<close>

definition RED :: "string \<Rightarrow> string" where
  "RED s = CHR 0x1B # ''[1;37;31m'' @ s @ CHR 0x1B # ''[0m''"

definition BLUE :: "string \<Rightarrow> string" where
  "BLUE s = CHR 0x1B # ''[1;37;34m'' @ s @ CHR 0x1B # ''[0m''"

definition GREEN :: "string \<Rightarrow> string" where
  "GREEN s = CHR 0x1B # ''[1;37;32m'' @ s @ CHR 0x1B # ''[0m''"

text \<open>
  \<^verbatim>\<open>
  def info_blue(s, check=True):
      if MPI.rank(mpi_comm_world())==0 and check:
          print BLUE % s
  \<close>
  and likewise \<^verbatim>\<open>info_green\<close> and \<^verbatim>\<open>info_red\<close>. The rank of the calling process in
  the world communicator is the parameter \<open>rank\<close>.
\<close>

definition info_blue :: "nat \<Rightarrow> string \<Rightarrow> bool \<Rightarrow> event list" where
  "info_blue rank s check = (if rank = 0 \<and> check then [Print (BLUE s)] else [])"

definition info_green :: "nat \<Rightarrow> string \<Rightarrow> bool \<Rightarrow> event list" where
  "info_green rank s check = (if rank = 0 \<and> check then [Print (GREEN s)] else [])"

definition info_red :: "nat \<Rightarrow> string \<Rightarrow> bool \<Rightarrow> event list" where
  "info_red rank s check = (if rank = 0 \<and> check then [Print (RED s)] else [])"

text \<open>A run on \<open>nprocs\<close> processes: every process, of rank \<open>0\<close> to \<open>nprocs - 1\<close>,
  executes \<open>f\<close>; the console receives what all of them print.\<close>

definition mpi_run :: "nat \<Rightarrow> (nat \<Rightarrow> event list) \<Rightarrow> event list" where
  "mpi_run nprocs f = concat (map f [0..<nprocs])"

section \<open>Strings: numbers, padding, splitting\<close>

definition digit_char :: "nat \<Rightarrow> char" where
  "digit_char d = ''0123456789'' ! d"

text \<open>\<^verbatim>\<open>str(n)\<close> of an integer: its decimal digits, after a minus sign when negative.\<close>

function str_nat :: "nat \<Rightarrow> string" where
  "str_nat n = (if n < 10 then [digit_char n] else str_nat (n div 10) @ [digit_char (n mod 10)])"
  by pat_completeness auto
termination
  by (relation "measure id") auto

declare str_nat.simps [simp del]

definition str_int :: "int \<Rightarrow> string" where
  "str_int i = (if i < 0 then CHR ''-'' # str_nat (nat (- i)) else str_nat (nat i))"

text \<open>The format fields \<^verbatim>\<open>{:26s}\<close> (a string, padded on the right) and \<^verbatim>\<open>{:10d}\<close>
  (an integer, padded on the left).\<close>

definition ljust :: "nat \<Rightarrow> string \<Rightarrow> string" where
  "ljust w s = s @ replicate (w - length s) CHR '' ''"

definition rjust :: "nat \<Rightarrow> string \<Rightarrow> string" where
  "rjust w s = replicate (w - length s) CHR '' '' @ s"

text \<open>\<^verbatim>\<open>s.split()\<close>: the maximal runs of characters that are not whitespace.\<close>

definition is_space :: "char \<Rightarrow> bool" where
  "is_space c \<longleftrightarrow> c \<in> set [CHR '' '', CHR 0x09, CHR 0x0A, CHR 0x0B, CHR 0x0C, CHR 0x0D]"

fun py_split_from :: "string \<Rightarrow> string \<Rightarrow> string list" where
  "py_split_from cur [] = (if cur = [] then [] else [cur])"
| "py_split_from cur (c # cs) =
     (if is_space c then (if cur = [] then py_split_from [] cs else cur # py_split_from [] cs)
      else py_split_from (cur @ [c]) cs)"

definition py_split :: "string \<Rightarrow> string list" where
  "py_split s = py_split_from [] s"

section \<open>Memory usage\<close>

text \<open>
  \<^verbatim>\<open>eval(mymemory)\<close> in the frame of \<^verbatim>\<open>getMemoryUsage\<close>. A decimal integer literal
  (digits, no leading zero) evaluates to its value; a name bound in the frame (\<open>mypid\<close>,
  \<open>rss\<close>, \<open>mymemory\<close>) evaluates to what it is bound to; what the interpreter does with
  any other text is the parameter \<open>evaluate\<close>.
\<close>

definition is_digit :: "char \<Rightarrow> bool" where
  "is_digit c \<longleftrightarrow> c \<in> set ''0123456789''"

definition digit_val :: "char \<Rightarrow> nat" where
  "digit_val c = length (takeWhile (\<lambda>d. d \<noteq> c) ''0123456789'')"

definition is_decimal_literal :: "string \<Rightarrow> bool" where
  "is_decimal_literal tok \<longleftrightarrow>
     tok \<noteq> [] \<and> list_all is_digit tok \<and> (length tok = 1 \<or> hd tok \<noteq> CHR ''0'')"

definition decimal_value :: "string \<Rightarrow> nat" where
  "decimal_value tok = foldl (\<lambda>n c. 10 * n + digit_val c) 0 tok"

definition py_eval ::
  "(string \<Rightarrow> py_error + pyval) \<Rightarrow> pydict \<Rightarrow> string \<Rightarrow> py_error + pyval" where
  "py_eval evaluate frame tok =
     (if is_decimal_literal tok then Inr (PInt (int (decimal_value tok)))
      else case map_of frame tok of
             Some v \<Rightarrow> Inr v
           | None \<Rightarrow> evaluate tok)"

text \<open>
  \<^verbatim>\<open>
  def getMemoryUsage(rss=True):
      mypid = getpid()
      if rss:
          mymemory = getoutput("ps -o rss %s" % mypid).split()[1]
      else:
          mymemory = getoutput("ps -o vsz %s" % mypid).split()[1]
      return eval(mymemory)
  \<close>
  The process id and what the shell command prints are parameters.
\<close>

definition getMemoryUsage_fallback ::
  "(string \<Rightarrow> py_error + pyval) \<Rightarrow> (string \<Rightarrow> string) \<Rightarrow> int \<Rightarrow> bool \<Rightarrow> py_error + pyval" where
  "getMemoryUsage_fallback evaluate getoutput getpid rss =
     (let mypid = getpid;
          tokens = (if rss then py_split (getoutput (''ps -o rss '' @ str_int mypid))
                    else py_split (getoutput (''ps -o vsz '' @ str_int mypid)))
      in case tokens of
           t0 # mymemory # rest \<Rightarrow>
             py_eval evaluate
               [(''mypid'', PInt mypid), (''rss'', PBool rss), (''mymemory'', PStr mymemory)]
               mymemory
         | _ \<Rightarrow> Inl IndexError)"

text \<open>
  \<^verbatim>\<open>
  try:
      from fenicstools import getMemoryUsage
  except:
      def getMemoryUsage(rss=True): ...
  \<close>
  \<open>fenicstools\<close> is the imported function when the import succeeds.
\<close>

definition getMemoryUsage ::
  "(bool \<Rightarrow> py_error + pyval) option \<Rightarrow> (string \<Rightarrow> py_error + pyval) \<Rightarrow> (string \<Rightarrow> string)
     \<Rightarrow> int \<Rightarrow> bool \<Rightarrow> py_error + pyval" where
  "getMemoryUsage fenicstools evaluate getoutput getpid rss =
     (case fenicstools of
        Some f \<Rightarrow> f rss
      | None \<Rightarrow> getMemoryUsage_fallback evaluate getoutput getpid rss)"

text \<open>An interpreter that knows no further names, and a process status output whose
  second token is the name \<open>rss\<close>.\<close>

definition no_further_names :: "string \<Rightarrow> py_error + pyval" where
  "no_further_names tok = Inl NameError"

definition ps_prints_rss :: "string \<Rightarrow> string" where
  "ps_prints_rss cmd = ''  RSS rss''"

text \<open>
  \<^verbatim>\<open>
  class OasisMemoryUsage:
      def __init__(self, s):
          self.memory = 0
          self.memory_vm = 0
          self(s)
      def __call__(self, s, verbose=False):
          self.prev = self.memory
          self.prev_vm = self.memory_vm
          self.memory = MPI.sum(mpi_comm_world(), getMemoryUsage())
          self.memory_vm = MPI.sum(mpi_comm_world(), getMemoryUsage(False))
          if MPI.rank(mpi_comm_world()) == 0 and verbose:
              info_blue('{0:26s}  {1:10d} MB {2:10d} MB {3:10d} MB {4:10d} MB'.format(s,
                     self.memory-self.prev, self.memory, self.memory_vm-self.prev_vm,
                     self.memory_vm))
  \<close>
  The object is the record of its four attributes. A call runs the module's
  \<^verbatim>\<open>getMemoryUsage\<close> twice, \<open>probe True\<close> for \<^verbatim>\<open>getMemoryUsage()\<close> and \<open>probe False\<close> for
  \<^verbatim>\<open>getMemoryUsage(False)\<close>; the probe may raise, and what it returns is whatever
  \<^verbatim>\<open>eval\<close> or \<^verbatim>\<open>fenicstools\<close> returned. An exception leaves the call at the statement
  that raised it, with the attributes assigned so far: the result of a call is the
  exception (or nothing), the object as the call left it, and the lines printed.

  \<^verbatim>\<open>MPI.sum\<close> is the library's reduction: it adds the value of this process to the
  values \<open>others\<close> that the other processes of the run contribute. It is taken to
  accept integers only (\<^verbatim>\<open>TypeError\<close> otherwise), as the format \<^verbatim>\<open>{1:10d}\<close> of the report
  does.
\<close>

record OasisMemoryUsage =
  memory :: int
  memory_vm :: int
  prev :: int
  prev_vm :: int

definition MPI_sum :: "int list \<Rightarrow> pyval \<Rightarrow> py_error + int" where
  "MPI_sum others v =
     (case v of
        PInt i \<Rightarrow> Inr (i + sum_list others)
      | _ \<Rightarrow> Inl TypeError)"

definition memory_line :: "string \<Rightarrow> int \<Rightarrow> int \<Rightarrow> int \<Rightarrow> int \<Rightarrow> string" where
  "memory_line s d m dvm mvm =
     ljust 26 s @ ''  '' @ rjust 10 (str_int d) @ '' MB '' @ rjust 10 (str_int m) @ '' MB ''
       @ rjust 10 (str_int dvm) @ '' MB '' @ rjust 10 (str_int mvm) @ '' MB''"

definition OasisMemoryUsage_call ::
  "(bool \<Rightarrow> py_error + pyval) \<Rightarrow> int list \<Rightarrow> int list \<Rightarrow> nat \<Rightarrow> OasisMemoryUsage \<Rightarrow> string
     \<Rightarrow> bool \<Rightarrow> (py_error + unit) \<times> OasisMemoryUsage \<times> event list" where
  "OasisMemoryUsage_call probe others others_vm rank self s verbose =
     (let self = self\<lparr>prev := memory self\<rparr>;
          self = self\<lparr>prev_vm := memory_vm self\<rparr>
      in case probe True of
           Inl e \<Rightarrow> (Inl e, self, [])
         | Inr rss \<Rightarrow>
             (case MPI_sum others rss of
                Inl e \<Rightarrow> (Inl e, self, [])
              | Inr m \<Rightarrow>
                  (let self = self\<lparr>memory := m\<rparr>
                   in case probe False of
                        Inl e \<Rightarrow> (Inl e, self, [])
                      | Inr vsz \<Rightarrow>
                          (case MPI_sum others_vm vsz of
                             Inl e \<Rightarrow> (Inl e, self, [])
                           | Inr m_vm \<Rightarrow>
                               (let self = self\<lparr>memory_vm := m_vm\<rparr>
                                in (Inr (), self,
                                    if rank = 0 \<and> verbose then
                                      info_blue rank
                                        (memory_line s (memory self - prev self) (memory self)
                                           (memory_vm self - prev_vm self) (memory_vm self))
                                        True
                                    else []))))))"

text \<open>The constructor: \<open>prev\<close> and \<open>prev_vm\<close> do not exist before the first call, which
  sets them.\<close>

definition OasisMemoryUsage_init ::
  "(bool \<Rightarrow> py_error + pyval) \<Rightarrow> int list \<Rightarrow> int list \<Rightarrow> nat \<Rightarrow> string
     \<Rightarrow> (py_error + unit) \<times> OasisMemoryUsage \<times> event list" where
  "OasisMemoryUsage_init probe others others_vm rank s =
     OasisMemoryUsage_call probe others others_vm rank
       \<lparr>memory = 0, memory_vm = 0, prev = 0, prev_vm = 0\<rparr> s False"

text \<open>A process status output whose second token is \<^verbatim>\<open>-5\<close>, and an interpreter that
  evaluates this text to the integer it denotes.\<close>

definition ps_prints_negative :: "string \<Rightarrow> string" where
  "ps_prints_negative cmd = ''  RSS -5''"

definition evaluates_negative :: "string \<Rightarrow> py_error + pyval" where
  "evaluates_negative tok = (if tok = ''-5'' then Inr (PInt (- 5)) else Inl NameError)"

section \<open>Deep update of dictionary objects\<close>

text \<open>
  A Python dictionary is an object: two entries, or two variables, may hold the same
  dictionary, and an assignment \<^verbatim>\<open>d[k] = v\<close> changes it for all of them. The store maps
  the address of every dictionary object to its items; a value held by a dictionary is
  a reference to a dictionary object or a value that is not a dictionary (an \<open>Atom\<close>,
  which \<^verbatim>\<open>recursive_update\<close> never changes).
\<close>

type_synonym addr = nat

datatype hval = Atom pyval | Ref addr

type_synonym items = "(string \<times> hval) list"

type_synonym store = "(addr \<times> items) list"

text \<open>\<^verbatim>\<open>key in d\<close> and \<^verbatim>\<open>d[key]\<close> for the dictionary at address \<open>p\<close>; \<^verbatim>\<open>d[key] = v\<close>;
  \<^verbatim>\<open>isinstance(v, dict)\<close>.\<close>

definition get_item :: "store \<Rightarrow> addr \<Rightarrow> string \<Rightarrow> hval option" where
  "get_item h p key = (case map_of h p of None \<Rightarrow> None | Some its \<Rightarrow> map_of its key)"

definition set_item :: "store \<Rightarrow> addr \<Rightarrow> string \<Rightarrow> hval \<Rightarrow> store" where
  "set_item h p key v =
     (case map_of h p of
        None \<Rightarrow> h
      | Some its \<Rightarrow> AList.update p (AList.update key v its) h)"

text \<open>
  \<^verbatim>\<open>
  def recursive_update(dst, src):
      for key, val in src.items():
          if key in dst and isinstance(val, dict) and isinstance(dst[key], dict):
              dst[key] = recursive_update(dst[key], val)
          else:
              dst[key] = val
      return dst
  \<close>
  \<open>recursive_update_loop\<close> is the loop, over the list \<^verbatim>\<open>src.items()\<close> as it was when
  the loop began; it threads the store. The nested call
  \<^verbatim>\<open>recursive_update(dst[key], val)\<close> is the loop over the items of \<open>val\<close> on the object
  \<open>dst[key]\<close>, it returns that object, which is then assigned to \<open>dst[key]\<close>. The
  interpreter allows \<open>depth\<close> further nested calls and raises \<^verbatim>\<open>RuntimeError\<close> (maximum
  recursion depth exceeded) at the next one.
\<close>

fun recursive_update_loop :: "nat \<Rightarrow> store \<Rightarrow> addr \<Rightarrow> items \<Rightarrow> py_error + store" where
  "recursive_update_loop depth h dst [] = Inr h"
| "recursive_update_loop depth h dst ((key, val) # rest) =
     (case (get_item h dst key, val) of
        (Some (Ref d), Ref s) \<Rightarrow>
          (case (map_of h d, map_of h s) of
             (Some d_items, Some s_items) \<Rightarrow>
               (case depth of
                  0 \<Rightarrow> Inl RuntimeError
                | Suc n \<Rightarrow>
                    (case recursive_update_loop n h d s_items of
                       Inl e \<Rightarrow> Inl e
                     | Inr h' \<Rightarrow> recursive_update_loop depth (set_item h' dst key (Ref d)) dst rest))
           | _ \<Rightarrow> recursive_update_loop depth (set_item h dst key val) dst rest)
      | _ \<Rightarrow> recursive_update_loop depth (set_item h dst key val) dst rest)"

definition recursive_update :: "nat \<Rightarrow> store \<Rightarrow> addr \<Rightarrow> addr \<Rightarrow> py_error + (addr \<times> store)" where
  "recursive_update depth h dst src =
     (case map_of h src of
        None \<Rightarrow> Inl AttributeError
      | Some s_items \<Rightarrow>
          (case recursive_update_loop depth h dst s_items of
             Inl e \<Rightarrow> Inl e
           | Inr h' \<Rightarrow> Inr (dst, h')))"

text \<open>
  What a stored value stands for. \<open>rep h v t\<close>: in the store \<open>h\<close> the value \<open>v\<close>
  represents the dictionary value \<open>t\<close>, and no dictionary object is reached twice on
  the way (the objects are those of \<open>footprint h v t\<close>). \<open>reps\<close> and \<open>footprints\<close> are
  the same for the items of a dictionary.
\<close>

fun footprint :: "store \<Rightarrow> hval \<Rightarrow> pyval \<Rightarrow> addr set"
  and footprints :: "store \<Rightarrow> items \<Rightarrow> pydict \<Rightarrow> addr set" where
  "footprint h (Ref p) (PDict d) =
     insert p (case map_of h p of None \<Rightarrow> {} | Some its \<Rightarrow> footprints h its d)"
| "footprint h v t = {}"
| "footprints h ((k, v) # its) ((k', t) # d) = footprint h v t \<union> footprints h its d"
| "footprints h its d = {}"

fun rep :: "store \<Rightarrow> hval \<Rightarrow> pyval \<Rightarrow> bool"
  and reps :: "store \<Rightarrow> items \<Rightarrow> pydict \<Rightarrow> bool" where
  "rep h (Ref p) (PDict d) =
     (case map_of h p of
        None \<Rightarrow> False
      | Some its \<Rightarrow> reps h its d \<and> p \<notin> footprints h its d)"
| "rep h (Atom a) (PDict d) = False"
| "rep h v t = (v = Atom t)"
| "reps h [] [] = True"
| "reps h ((k, v) # its) ((k', t) # d) =
     (k = k' \<and> rep h v t \<and> reps h its d \<and> footprint h v t \<inter> footprints h its d = {})"
| "reps h its d = False"

text \<open>How deeply dictionaries are nested in the values of a dictionary.\<close>

fun nesting :: "pyval \<Rightarrow> nat" and nestings :: "pydict \<Rightarrow> nat" where
  "nesting (PDict d) = Suc (nestings d)"
| "nesting t = 0"
| "nestings [] = 0"
| "nestings ((k, t) # d) = max (nesting t) (nestings d)"

text \<open>The objects of the items of a dictionary other than the item with key \<open>k\<close>.\<close>

fun siblings :: "store \<Rightarrow> items \<Rightarrow> pydict \<Rightarrow> string \<Rightarrow> addr set" where
  "siblings h ((k1, v) # its) ((k1', t) # d) k =
     (if k1 = k then footprints h its d else footprint h v t \<union> siblings h its d k)"
| "siblings h its d k = {}"

text \<open>
  Two stores. In \<open>separate_store\<close> the destination (object 0) is
  \<^verbatim>\<open>{a: {x: 0, y: 2}, b: 5}\<close> and the source (object 1) is \<^verbatim>\<open>{a: {x: 1}, c: 7}\<close>, every
  dictionary an object of its own. In \<open>shared_store\<close> the destination holds one and the
  same dictionary \<^verbatim>\<open>D = {x: 0, y: 2}\<close> (object 2) under \<open>a\<close> and under \<open>b\<close>, as after
  \<^verbatim>\<open>dst = {'a': D, 'b': D}\<close>, and the source is \<^verbatim>\<open>{a: {x: 1}, b: {y: 5}}\<close>.
\<close>

definition separate_store :: store where
  "separate_store =
     [(0, [(''a'', Ref 2), (''b'', Atom (PInt 5))]),
      (1, [(''a'', Ref 3), (''c'', Atom (PInt 7))]),
      (2, [(''x'', Atom (PInt 0)), (''y'', Atom (PInt 2))]),
      (3, [(''x'', Atom (PInt 1))])]"

definition shared_store :: store where
  "shared_store =
     [(0, [(''a'', Ref 2), (''b'', Ref 2)]),
      (1, [(''a'', Ref 3), (''b'', Ref 4)]),
      (2, [(''x'', Atom (PInt 0)), (''y'', Atom (PInt 2))]),
      (3, [(''x'', Atom (PInt 1))]),
      (4, [(''y'', Atom (PInt 5))])]"

section \<open>Properties of the dictionary operations\<close>

lemma map_of_dict_update:
  "map_of (dict_update dst src) = map_of dst ++ map_of (rev src)"
  unfolding dict_update_def
proof (induction src arbitrary: dst)
  case Nil
  then show ?case by simp
next
  case (Cons a src)
  obtain k v where a: "a = (k, v)" by (cases a)
  show ?case
    unfolding a
    by (simp add: Cons.IH update_conv' fun_eq_iff map_add_def split: option.splits)
qed

lemma dict_update_other:
  "k \<notin> fst ` set src \<Longrightarrow> map_of (dict_update dst src) k = map_of dst k"
  by (simp add: map_of_dict_update map_add_def map_of_eq_None_iff [THEN iffD2])

lemma distinct_dict_update:
  "distinct (map fst dst) \<Longrightarrow> distinct (map fst (dict_update dst src))"
  unfolding dict_update_def
  by (induction src arbitrary: dst) (auto simp: distinct_update)

lemma map_of_const:
  "\<forall>p \<in> set ps. snd p = c \<Longrightarrow>
   map_of ps k = (if k \<in> fst ` set ps then Some c else None)"
  by (induction ps) auto

lemma map_of_py_dict_const:
  "map_of (py_dict (map (\<lambda>k. (k, c)) ks)) =
     (\<lambda>k. if k \<in> set ks then Some c else None)"
proof -
  have "map_of (rev (map (\<lambda>k. (k, c)) ks)) k =
        (if k \<in> set ks then Some c else None)" for k
    by (subst map_of_const [where c = c]) (auto simp: image_iff)
  then show ?thesis
    by (simp add: py_dict_def map_of_dict_update fun_eq_iff)
qed

section \<open>Deep update\<close>

lemma deep_merge_step:
  "deep_merge dst ((key, val) # rest) =
     deep_merge (AList.update key
        (case (map_of dst key, val) of
           (Some (PDict d), PDict s) \<Rightarrow> PDict (deep_merge d s)
         | _ \<Rightarrow> val) dst) rest"
  by (simp split: option.splits pyval.splits)

lemma deep_merge_other:
  "k \<notin> fst ` set src \<Longrightarrow> map_of (deep_merge dst src) k = map_of dst k"
proof (induction src arbitrary: dst)
  case Nil
  then show ?case by simp
next
  case (Cons a src)
  obtain key val where a: "a = (key, val)" by (cases a)
  from Cons.prems a have "k \<noteq> key" "k \<notin> fst ` set src" by auto
  then show ?case
    unfolding a deep_merge_step
    by (simp add: Cons.IH update_conv')
qed

lemma deep_merge_lookup:
  "distinct (map fst src) \<Longrightarrow>
   map_of (deep_merge dst src) k =
     (case map_of src k of
        None \<Rightarrow> map_of dst k
      | Some v \<Rightarrow>
          (case (map_of dst k, v) of
             (Some (PDict d), PDict s) \<Rightarrow> Some (PDict (deep_merge d s))
           | _ \<Rightarrow> Some v))"
proof (induction src arbitrary: dst)
  case Nil
  then show ?case by simp
next
  case (Cons a src)
  obtain key val where a: "a = (key, val)" by (cases a)
  from Cons.prems a have notin: "key \<notin> fst ` set src" and dist: "distinct (map fst src)"
    by auto
  show ?case
  proof (cases "k = key")
    case True
    have "map_of (deep_merge dst (a # src)) k =
          Some (case (map_of dst key, val) of
           (Some (PDict d), PDict s) \<Rightarrow> PDict (deep_merge d s)
         | _ \<Rightarrow> val)"
      unfolding a deep_merge_step using notin True
      by (simp add: deep_merge_other update_conv')
    then show ?thesis using True a
      by (simp split: option.splits pyval.splits)
  next
    case False
    then show ?thesis
      unfolding a deep_merge_step
      by (simp add: Cons.IH [OF dist] update_conv' split: option.splits)
  qed
qed

text \<open>What a reference and what a dictionary value can represent.\<close>

lemma rep_Ref:
  assumes "rep h (Ref p) t"
  obtains d its where "t = PDict d" and "map_of h p = Some its" and "reps h its d"
    and "p \<notin> footprints h its d" and "footprint h (Ref p) t = insert p (footprints h its d)"
  using assms by (cases t) (auto split: option.splits)

lemma rep_PDict:
  assumes "rep h v (PDict d)"
  obtains p its where "v = Ref p" and "map_of h p = Some its" and "reps h its d"
    and "p \<notin> footprints h its d"
    and "footprint h v (PDict d) = insert p (footprints h its d)"
  using assms by (cases v) (auto split: option.splits)

lemma reps_Cons:
  assumes "reps h ((k, v) # its) D"
  obtains t D' where "D = (k, t) # D'" and "rep h v t" and "reps h its D'"
    and "footprint h v t \<inter> footprints h its D' = {}"
proof (cases D)
  case Nil
  with assms show ?thesis by simp
next
  case (Cons a D')
  obtain k' t where "a = (k', t)" by (cases a)
  with Cons assms that show ?thesis by simp
qed

lemma reps_Nil: "reps h [] D \<Longrightarrow> D = []"
  by (cases D) auto

lemma reps_lookup:
  assumes "reps h its D"
  shows "map_of its k = None \<longleftrightarrow> map_of D k = None"
    and "map_of its k = Some v \<Longrightarrow>
           \<exists>t. map_of D k = Some t \<and> rep h v t \<and> footprint h v t \<subseteq> footprints h its D"
    and "map_of D k = Some t \<Longrightarrow> \<exists>v. map_of its k = Some v \<and> rep h v t"
  using assms
proof (induction its arbitrary: D)
  case Nil
  { case 1 then show ?case by (auto dest: reps_Nil) }
  { case 2 then show ?case by simp }
  { case 3 then show ?case by (auto dest: reps_Nil) }
next
  case (Cons a its)
  obtain k1 v1 where a: "a = (k1, v1)" by (cases a)
  { case 1
    from 1 obtain t1 D' where D: "D = (k1, t1) # D'" and r: "reps h its D'"
      unfolding a by (rule reps_Cons)
    show ?case using Cons.IH(1) [OF r] by (simp add: a D) }
  { case 2
    from 2(2) obtain t1 D' where D: "D = (k1, t1) # D'" and r1: "rep h v1 t1"
      and r: "reps h its D'"
      unfolding a by (rule reps_Cons)
    show ?case
    proof (cases "k1 = k")
      case True
      with 2(1) r1 show ?thesis by (auto simp: a D)
    next
      case False
      with 2(1) have "map_of its k = Some v" by (simp add: a)
      from Cons.IH(2) [OF this r] False show ?thesis by (auto simp: a D)
    qed }
  { case 3
    from 3(2) obtain t1 D' where D: "D = (k1, t1) # D'" and r1: "rep h v1 t1"
      and r: "reps h its D'"
      unfolding a by (rule reps_Cons)
    show ?case
    proof (cases "k1 = k")
      case True
      with 3(1) r1 show ?thesis by (auto simp: a D)
    next
      case False
      with 3(1) have "map_of D' k = Some t" by (simp add: D)
      from Cons.IH(3) [OF this r] False show ?thesis by (auto simp: a D)
    qed }
qed

lemma siblings_subset:
  "reps h its D \<Longrightarrow> siblings h its D k \<subseteq> footprints h its D"
proof (induction its arbitrary: D)
  case Nil
  then show ?case by simp
next
  case (Cons a its)
  obtain k1 v1 where a: "a = (k1, v1)" by (cases a)
  from Cons.prems obtain t1 D' where D: "D = (k1, t1) # D'" and r: "reps h its D'"
    unfolding a by (rule reps_Cons)
  from Cons.IH [OF r] show ?case by (auto simp: a D)
qed

lemma siblings_split:
  assumes "reps h its D" and "map_of its k = Some v" and "map_of D k = Some t"
  shows "footprints h its D = footprint h v t \<union> siblings h its D k"
    and "footprint h v t \<inter> siblings h its D k = {}"
  using assms
proof (induction its arbitrary: D)
  case Nil
  { case 1 then show ?case by simp }
  { case 2 then show ?case by simp }
next
  case (Cons a its)
  obtain k1 v1 where a: "a = (k1, v1)" by (cases a)
  { case 1
    from 1(1) obtain t1 D' where D: "D = (k1, t1) # D'" and r: "reps h its D'"
      unfolding a by (rule reps_Cons)
    show ?case
    proof (cases "k1 = k")
      case True
      with 1 show ?thesis by (simp add: a D)
    next
      case False
      with 1 have "map_of its k = Some v" and "map_of D' k = Some t" by (simp_all add: a D)
      from Cons.IH(1) [OF r this] False show ?thesis by (auto simp: a D)
    qed }
  { case 2
    from 2(1) obtain t1 D' where D: "D = (k1, t1) # D'" and r: "reps h its D'"
      and d: "footprint h v1 t1 \<inter> footprints h its D' = {}"
      unfolding a by (rule reps_Cons)
    show ?case
    proof (cases "k1 = k")
      case True
      with 2 d show ?thesis by (simp add: a D)
    next
      case False
      with 2 have m: "map_of its k = Some v" "map_of D' k = Some t" by (simp_all add: a D)
      from Cons.IH(1) [OF r m] Cons.IH(2) [OF r m] d False show ?thesis
        by (auto simp: a D)
    qed }
qed

lemma siblings_absent:
  assumes "reps h its D" and "map_of its k = None"
  shows "siblings h its D k = footprints h its D"
  using assms
proof (induction its arbitrary: D)
  case Nil
  then show ?case by simp
next
  case (Cons a its)
  obtain k1 v1 where a: "a = (k1, v1)" by (cases a)
  from Cons.prems(1) obtain t1 D' where D: "D = (k1, t1) # D'" and r: "reps h its D'"
    unfolding a by (rule reps_Cons)
  from Cons.prems(2) have "k1 \<noteq> k" and "map_of its k = None"
    by (auto simp: a split: if_splits)
  with Cons.IH [OF r] show ?case by (simp add: a D)
qed

text \<open>A change of the store outside the objects of a value changes neither the objects
  nor what the value represents.\<close>

lemma rep_trivial:
  "rep h (Atom a) t \<Longrightarrow> rep h' (Atom a) t"
  "reps h [] d \<Longrightarrow> reps h' [] d"
  "reps h its [] \<Longrightarrow> reps h' its []"
proof -
  show "rep h (Atom a) t \<Longrightarrow> rep h' (Atom a) t" by (cases t) auto
  show "reps h [] d \<Longrightarrow> reps h' [] d" by (cases d) auto
  show "reps h its [] \<Longrightarrow> reps h' its []" by (cases its) auto
qed

lemma frame:
  "(\<forall>q \<in> footprint h v t. map_of h' q = map_of h q) \<Longrightarrow>
     footprint h' v t = footprint h v t \<and> rep h' v t = rep h v t"
  "(\<forall>q \<in> footprints h its d. map_of h' q = map_of h q) \<Longrightarrow>
     footprints h' its d = footprints h its d \<and> reps h' its d = reps h its d"
proof (induction h v t and h its d rule: footprint_footprints.induct)
  case (1 h p d)
  then show ?case by (auto split: option.splits)
qed (auto intro: rep_trivial)

lemma frame_rep:
  assumes "rep h v t" and "\<And>q. q \<in> footprint h v t \<Longrightarrow> map_of h' q = map_of h q"
  shows "rep h' v t" and "footprint h' v t = footprint h v t"
  using frame(1) [of h v t h'] assms by auto

lemma frame_reps:
  assumes "reps h its d" and "\<And>q. q \<in> footprints h its d \<Longrightarrow> map_of h' q = map_of h q"
  shows "reps h' its d" and "footprints h' its d = footprints h its d"
  using frame(2) [of h its d h'] assms by auto

text \<open>Assigning an item: the other items are as they were.\<close>

lemma reps_update:
  assumes "reps h its D" and "rep h' v t"
    and "\<And>q. q \<in> siblings h its D k \<Longrightarrow> map_of h' q = map_of h q"
    and "footprint h' v t \<inter> siblings h its D k = {}"
  shows "reps h' (AList.update k v its) (AList.update k t D)
         \<and> footprints h' (AList.update k v its) (AList.update k t D) =
             footprint h' v t \<union> siblings h its D k"
  using assms
proof (induction its arbitrary: D)
  case Nil
  then have "D = []" by (simp add: reps_Nil)
  with Nil show ?case by simp
next
  case (Cons a its)
  obtain k1 v1 where a: "a = (k1, v1)" by (cases a)
  from Cons.prems(1) obtain t1 D' where D: "D = (k1, t1) # D'" and r1: "rep h v1 t1"
    and r: "reps h its D'" and d: "footprint h v1 t1 \<inter> footprints h its D' = {}"
    unfolding a by (rule reps_Cons)
  show ?case
  proof (cases "k1 = k")
    case True
    then have s: "siblings h (a # its) D k = footprints h its D'" by (simp add: a D)
    from frame_reps [OF r, of h'] Cons.prems(3) s
    have "reps h' its D'" and "footprints h' its D' = footprints h its D'" by auto
    with True Cons.prems(2,4) s show ?thesis by (simp add: a D)
  next
    case False
    then have s: "siblings h (a # its) D k = footprint h v1 t1 \<union> siblings h its D' k"
      by (simp add: a D)
    from Cons.IH [OF r Cons.prems(2)] Cons.prems(3,4) s
    have i: "reps h' (AList.update k v its) (AList.update k t D')"
      and f: "footprints h' (AList.update k v its) (AList.update k t D') =
              footprint h' v t \<union> siblings h its D' k"
      by auto
    from frame_rep [OF r1, of h'] Cons.prems(3) s
    have r1': "rep h' v1 t1" and f1: "footprint h' v1 t1 = footprint h v1 t1" by auto
    from siblings_subset [OF r, of k] d
    have "footprint h v1 t1 \<inter> siblings h its D' k = {}" by auto
    with Cons.prems(4) s
    have "footprint h v1 t1 \<inter> (footprint h' v t \<union> siblings h its D' k) = {}" by auto
    with False i f r1' f1 s show ?thesis by (simp add: a D Un_assoc Un_left_commute)
  qed
qed

text \<open>The two branches of the loop body.\<close>

lemma loop_nested:
  assumes "get_item h dst key = Some (Ref d)" and "map_of h d = Some d_items"
    and "map_of h s = Some s_items"
  shows "recursive_update_loop (Suc n) h dst ((key, Ref s) # rest) =
           (case recursive_update_loop n h d s_items of
              Inl e \<Rightarrow> Inl e
            | Inr h' \<Rightarrow> recursive_update_loop (Suc n) (set_item h' dst key (Ref d)) dst rest)"
  using assms by simp

lemma loop_assign:
  assumes "\<not> (\<exists>d s. get_item h dst key = Some (Ref d) \<and> val = Ref s
                  \<and> map_of h d \<noteq> None \<and> map_of h s \<noteq> None)"
  shows "recursive_update_loop depth h dst ((key, val) # rest) =
           recursive_update_loop depth (set_item h dst key val) dst rest"
  using assms by (auto split: option.splits hval.splits nat.splits)

lemma map_of_set_item:
  "map_of h p = Some its \<Longrightarrow>
     map_of (set_item h p key v) = (map_of h)(p \<mapsto> AList.update key v its)"
  by (simp add: set_item_def update_conv')

text \<open>
  The loop on separate objects. The destination object \<open>dst\<close> holds the items \<open>d_its\<close>,
  which represent \<open>D\<close>; the items \<open>its\<close> of the source represent \<open>S\<close>; no object of the
  one is an object of the other. Then the loop returns, the destination represents the
  deep merge of \<open>D\<close> and \<open>S\<close>, and the store has changed only at objects of the two.
\<close>

lemma loop_step:
  assumes inner:
    "\<And>n h d d_items Dd s_items Ss.
       depth = Suc n \<Longrightarrow> map_of h d = Some d_items \<Longrightarrow> reps h d_items Dd
       \<Longrightarrow> d \<notin> footprints h d_items Dd \<Longrightarrow> reps h s_items Ss
       \<Longrightarrow> insert d (footprints h d_items Dd) \<inter> footprints h s_items Ss = {}
       \<Longrightarrow> nestings Ss \<le> n
       \<Longrightarrow> \<exists>h' its'. recursive_update_loop n h d s_items = Inr h'
              \<and> map_of h' d = Some its' \<and> reps h' its' (deep_merge Dd Ss)
              \<and> d \<notin> footprints h' its' (deep_merge Dd Ss)
              \<and> footprints h' its' (deep_merge Dd Ss) \<subseteq>
                  footprints h d_items Dd \<union> footprints h s_items Ss
              \<and> (\<forall>q. q \<noteq> d \<and> q \<notin> footprints h d_items Dd \<and> q \<notin> footprints h s_items Ss
                     \<longrightarrow> map_of h' q = map_of h q)"
  shows
    "map_of h dst = Some d_its \<Longrightarrow> reps h d_its D \<Longrightarrow> dst \<notin> footprints h d_its D
     \<Longrightarrow> reps h its S \<Longrightarrow> insert dst (footprints h d_its D) \<inter> footprints h its S = {}
     \<Longrightarrow> nestings S \<le> depth
     \<Longrightarrow> \<exists>h' its'. recursive_update_loop depth h dst its = Inr h'
            \<and> map_of h' dst = Some its' \<and> reps h' its' (deep_merge D S)
            \<and> dst \<notin> footprints h' its' (deep_merge D S)
            \<and> footprints h' its' (deep_merge D S) \<subseteq> footprints h d_its D \<union> footprints h its S
            \<and> (\<forall>q. q \<noteq> dst \<and> q \<notin> footprints h d_its D \<and> q \<notin> footprints h its S
                   \<longrightarrow> map_of h' q = map_of h q)"
proof (induction its arbitrary: h d_its D S)
  case Nil
  then have "S = []" by (simp add: reps_Nil)
  with Nil show ?case by simp
next
  case (Cons a rest)
  obtain key val where a: "a = (key, val)" by (cases a)
  note m = Cons.prems(1) and rD = Cons.prems(2) and nd = Cons.prems(3)
    and sep = Cons.prems(5) and ne = Cons.prems(6)
  from Cons.prems(4) obtain t S' where S: "S = (key, t) # S'" and rv: "rep h val t"
    and rr: "reps h rest S'" and dv: "footprint h val t \<inter> footprints h rest S' = {}"
    unfolding a by (rule reps_Cons)
  let ?A = "footprints h d_its D"
  let ?B = "footprints h (a # rest) S"
  let ?sib = "siblings h d_its D key"
  have B: "?B = footprint h val t \<union> footprints h rest S'" by (simp add: a S)
  have AB: "?A \<inter> ?B = {}" and dB: "dst \<notin> ?B" using sep by auto
  have sibA: "?sib \<subseteq> ?A" by (rule siblings_subset [OF rD])
  from ne have ne': "nestings S' \<le> depth" and nt: "nesting t \<le> depth" by (simp_all add: S)
  show ?case
  proof (cases "\<exists>d s. get_item h dst key = Some (Ref d) \<and> val = Ref s
                  \<and> map_of h d \<noteq> None \<and> map_of h s \<noteq> None")
    case True
    then obtain d s where g: "get_item h dst key = Some (Ref d)" and v: "val = Ref s" by blast
    from g m have mk: "map_of d_its key = Some (Ref d)" by (simp add: get_item_def)
    from reps_lookup(2) [OF rD mk] obtain td where mD: "map_of D key = Some td"
      and rd: "rep h (Ref d) td" and fd: "footprint h (Ref d) td \<subseteq> ?A" by blast
    from rd obtain Dd d_items where td: "td = PDict Dd" and md: "map_of h d = Some d_items"
      and rdi: "reps h d_items Dd" and ndd: "d \<notin> footprints h d_items Dd"
      and fpd: "footprint h (Ref d) td = insert d (footprints h d_items Dd)"
      by (rule rep_Ref)
    from rv obtain Ss s_items where t: "t = PDict Ss" and ms: "map_of h s = Some s_items"
      and rsi: "reps h s_items Ss"
      and fps: "footprint h val t = insert s (footprints h s_items Ss)"
      unfolding v by (rule rep_Ref)
    let ?Ad = "footprints h d_items Dd"
    let ?Bs = "footprints h s_items Ss"
    have AdA: "insert d ?Ad \<subseteq> ?A" using fd fpd by simp
    have BsB: "?Bs \<subseteq> ?B" and Bsv: "?Bs \<subseteq> footprint h val t" using B fps by auto
    from siblings_split [OF rD mk mD] fpd
    have A: "?A = insert d ?Ad \<union> ?sib" and dsib: "insert d ?Ad \<inter> ?sib = {}" by simp_all
    from nt t obtain n where depth: "depth = Suc n" and nn: "nestings Ss \<le> n"
      by (cases depth) simp_all
    have "insert d ?Ad \<inter> ?Bs = {}" using AdA BsB AB by blast
    from inner [OF depth md rdi ndd rsi this nn]
    obtain h1 its1 where l1: "recursive_update_loop n h d s_items = Inr h1"
      and m1: "map_of h1 d = Some its1" and r1: "reps h1 its1 (deep_merge Dd Ss)"
      and n1: "d \<notin> footprints h1 its1 (deep_merge Dd Ss)"
      and s1: "footprints h1 its1 (deep_merge Dd Ss) \<subseteq> ?Ad \<union> ?Bs"
      and f1: "\<And>q. q \<noteq> d \<Longrightarrow> q \<notin> ?Ad \<Longrightarrow> q \<notin> ?Bs \<Longrightarrow> map_of h1 q = map_of h q"
      by blast
    let ?M = "deep_merge Dd Ss"
    let ?F1 = "footprints h1 its1 ?M"
    have dd: "dst \<noteq> d" using AdA nd by auto
    have dF1: "dst \<notin> ?F1" using s1 AdA BsB nd dB by blast
    have "dst \<notin> ?Ad" and "dst \<notin> ?Bs" using AdA BsB nd dB by auto
    with dd have "map_of h1 dst = map_of h dst" by (intro f1)
    with m have m1d: "map_of h1 dst = Some d_its" by simp
    define h2 where "h2 = set_item h1 dst key (Ref d)"
    let ?its2 = "AList.update key (Ref d) d_its"
    let ?D2 = "AList.update key (PDict ?M) D"
    have mh2: "map_of h2 = (map_of h1)(dst \<mapsto> ?its2)"
      unfolding h2_def by (rule map_of_set_item [OF m1d])
    have e2: "q \<noteq> dst \<Longrightarrow> map_of h2 q = map_of h1 q" for q by (simp add: mh2)
    have q1: "map_of h2 q = map_of h1 q" if "q \<in> ?F1" for q
    proof -
      from that dF1 have "q \<noteq> dst" by auto
      then show ?thesis by (rule e2)
    qed
    from frame_reps [OF r1 q1]
    have r2i: "reps h2 its1 ?M" and f2i: "footprints h2 its1 ?M = ?F1"
      by simp_all
    have m2d: "map_of h2 d = Some its1" using e2 dd m1 by simp
    have r2d: "rep h2 (Ref d) (PDict ?M)" and f2d: "footprint h2 (Ref d) (PDict ?M) = insert d ?F1"
      using m2d r2i f2i n1 by simp_all
    have sibq: "map_of h2 q = map_of h q" if "q \<in> ?sib" for q
    proof -
      from that sibA nd have "q \<noteq> dst" by auto
      then have "map_of h2 q = map_of h1 q" by (rule e2)
      moreover from that dsib have "q \<noteq> d" "q \<notin> ?Ad" by auto
      moreover from that sibA AB BsB have "q \<notin> ?Bs" by blast
      ultimately show ?thesis using f1 [of q] by simp
    qed
    have "footprint h2 (Ref d) (PDict ?M) \<inter> ?sib = {}"
      unfolding f2d using s1 dsib sibA AB BsB by blast
    from reps_update [OF rD r2d sibq this]
    have r2: "reps h2 ?its2 ?D2" and f2: "footprints h2 ?its2 ?D2 = insert d ?F1 \<union> ?sib"
      unfolding f2d by simp_all
    have restq: "map_of h2 q = map_of h q" if "q \<in> footprints h rest S'" for q
    proof -
      from that B have qB: "q \<in> ?B" by simp
      with dB have "q \<noteq> dst" by auto
      then have "map_of h2 q = map_of h1 q" by (rule e2)
      moreover from qB AB AdA have "q \<noteq> d" "q \<notin> ?Ad" by auto
      moreover from that dv Bsv have "q \<notin> ?Bs" by blast
      ultimately show ?thesis using f1 [of q] by simp
    qed
    from frame_reps [OF rr restq]
    have rr2: "reps h2 rest S'" and fr2: "footprints h2 rest S' = footprints h rest S'"
      by simp_all
    have p1: "map_of h2 dst = Some ?its2" by (simp add: mh2)
    have p3: "dst \<notin> footprints h2 ?its2 ?D2"
      unfolding f2 using dd dF1 sibA nd by auto
    have p5: "insert dst (footprints h2 ?its2 ?D2) \<inter> footprints h2 rest S' = {}"
      unfolding f2 fr2 using s1 AdA sibA AB B dB dv Bsv by blast
    from Cons.IH [OF p1 r2 p3 rr2 p5 ne']
    obtain h' its' where l: "recursive_update_loop depth h2 dst rest = Inr h'"
      and c1: "map_of h' dst = Some its'" and c2: "reps h' its' (deep_merge ?D2 S')"
      and c3: "dst \<notin> footprints h' its' (deep_merge ?D2 S')"
      and c4: "footprints h' its' (deep_merge ?D2 S') \<subseteq>
                 footprints h2 ?its2 ?D2 \<union> footprints h2 rest S'"
      and c5: "\<And>q. q \<noteq> dst \<Longrightarrow> q \<notin> footprints h2 ?its2 ?D2 \<Longrightarrow> q \<notin> footprints h2 rest S'
                 \<Longrightarrow> map_of h' q = map_of h2 q"
      by blast
    have run: "recursive_update_loop depth h dst (a # rest) = Inr h'"
      unfolding a v depth loop_nested [OF g md ms] using l1 l
      by (simp add: h2_def depth)
    have dm: "deep_merge D S = deep_merge ?D2 S'"
      by (simp add: S t mD td)
    have sub: "footprints h2 ?its2 ?D2 \<union> footprints h2 rest S' \<subseteq> ?A \<union> ?B"
      unfolding f2 fr2 using s1 AdA BsB sibA B by blast
    have fr: "map_of h' q = map_of h q" if "q \<noteq> dst" and "q \<notin> ?A" and "q \<notin> ?B" for q
    proof -
      from that sub have "q \<notin> footprints h2 ?its2 ?D2" and "q \<notin> footprints h2 rest S'"
        by auto
      with that(1) have "map_of h' q = map_of h2 q" by (rule c5)
      also have "\<dots> = map_of h1 q" using that(1) by (rule e2)
      also have "\<dots> = map_of h q"
      proof -
        from that AdA BsB have "q \<noteq> d" "q \<notin> ?Ad" "q \<notin> ?Bs" by auto
        then show ?thesis by (rule f1)
      qed
      finally show ?thesis .
    qed
    from run c1 c2 c3 c4 sub fr show ?thesis
      unfolding dm by blast
  next
    case False
    have run0: "recursive_update_loop depth h dst (a # rest) =
        recursive_update_loop depth (set_item h dst key val) dst rest"
      unfolding a by (rule loop_assign [OF False])
    have nodict: "\<not> (\<exists>Dd Ss. map_of D key = Some (PDict Dd) \<and> t = PDict Ss)"
    proof
      assume "\<exists>Dd Ss. map_of D key = Some (PDict Dd) \<and> t = PDict Ss"
      then obtain Dd Ss where mD: "map_of D key = Some (PDict Dd)" and t: "t = PDict Ss"
        by blast
      from rv obtain s s_items where "val = Ref s" and "map_of h s = Some s_items"
        unfolding t by (rule rep_PDict)
      moreover from reps_lookup(3) [OF rD mD] obtain v where mk: "map_of d_its key = Some v"
        and "rep h v (PDict Dd)" by blast
      then obtain d d_items where "v = Ref d" and "map_of h d = Some d_items"
        by (auto elim: rep_PDict)
      moreover from this mk m have "get_item h dst key = Some (Ref d)"
        by (simp add: get_item_def)
      ultimately show False using False by auto
    qed
    define h2 where "h2 = set_item h dst key val"
    let ?its2 = "AList.update key val d_its"
    let ?D2 = "AList.update key t D"
    have dm: "deep_merge D S = deep_merge ?D2 S'"
      using nodict by (auto simp: S split: option.splits pyval.splits)
    have mh2: "map_of h2 = (map_of h)(dst \<mapsto> ?its2)"
      unfolding h2_def by (rule map_of_set_item [OF m])
    have e2: "q \<noteq> dst \<Longrightarrow> map_of h2 q = map_of h q" for q by (simp add: mh2)
    have vB: "footprint h val t \<subseteq> ?B" using B by auto
    have qv: "map_of h2 q = map_of h q" if "q \<in> footprint h val t" for q
    proof -
      from that vB dB have "q \<noteq> dst" by auto
      then show ?thesis by (rule e2)
    qed
    from frame_rep [OF rv qv]
    have rv2: "rep h2 val t" and fv2: "footprint h2 val t = footprint h val t"
      by simp_all
    have sibq: "map_of h2 q = map_of h q" if "q \<in> ?sib" for q
    proof -
      from that sibA nd have "q \<noteq> dst" by auto
      then show ?thesis by (rule e2)
    qed
    have "footprint h2 val t \<inter> ?sib = {}"
      unfolding fv2 using vB sibA AB by blast
    from reps_update [OF rD rv2 sibq this]
    have r2: "reps h2 ?its2 ?D2"
      and f2: "footprints h2 ?its2 ?D2 = footprint h val t \<union> ?sib"
      unfolding fv2 by simp_all
    have restq: "map_of h2 q = map_of h q" if "q \<in> footprints h rest S'" for q
    proof -
      from that B dB have "q \<noteq> dst" by auto
      then show ?thesis by (rule e2)
    qed
    from frame_reps [OF rr restq]
    have rr2: "reps h2 rest S'" and fr2: "footprints h2 rest S' = footprints h rest S'"
      by simp_all
    have p1: "map_of h2 dst = Some ?its2" by (simp add: mh2)
    have p3: "dst \<notin> footprints h2 ?its2 ?D2"
      unfolding f2 using vB dB sibA nd by auto
    have p5: "insert dst (footprints h2 ?its2 ?D2) \<inter> footprints h2 rest S' = {}"
      unfolding f2 fr2 using sibA AB B dB dv by blast
    from Cons.IH [OF p1 r2 p3 rr2 p5 ne']
    obtain h' its' where l: "recursive_update_loop depth h2 dst rest = Inr h'"
      and c1: "map_of h' dst = Some its'" and c2: "reps h' its' (deep_merge ?D2 S')"
      and c3: "dst \<notin> footprints h' its' (deep_merge ?D2 S')"
      and c4: "footprints h' its' (deep_merge ?D2 S') \<subseteq>
                 footprints h2 ?its2 ?D2 \<union> footprints h2 rest S'"
      and c5: "\<And>q. q \<noteq> dst \<Longrightarrow> q \<notin> footprints h2 ?its2 ?D2 \<Longrightarrow> q \<notin> footprints h2 rest S'
                 \<Longrightarrow> map_of h' q = map_of h2 q"
      by blast
    have run: "recursive_update_loop depth h dst (a # rest) = Inr h'"
      unfolding run0 using l by (simp add: h2_def)
    have sub: "footprints h2 ?its2 ?D2 \<union> footprints h2 rest S' \<subseteq> ?A \<union> ?B"
      unfolding f2 fr2 using sibA B by blast
    have fr: "map_of h' q = map_of h q" if "q \<noteq> dst" and "q \<notin> ?A" and "q \<notin> ?B" for q
    proof -
      from that sub have "q \<notin> footprints h2 ?its2 ?D2" and "q \<notin> footprints h2 rest S'"
        by auto
      with that(1) have "map_of h' q = map_of h2 q" by (rule c5)
      also have "\<dots> = map_of h q" using that(1) by (rule e2)
      finally show ?thesis .
    qed
    from run c1 c2 c3 c4 sub fr show ?thesis
      unfolding dm by blast
  qed
qed

lemma loop_refines:
  "map_of h dst = Some d_its \<Longrightarrow> reps h d_its D \<Longrightarrow> dst \<notin> footprints h d_its D
   \<Longrightarrow> reps h its S \<Longrightarrow> insert dst (footprints h d_its D) \<inter> footprints h its S = {}
   \<Longrightarrow> nestings S \<le> depth
   \<Longrightarrow> \<exists>h' its'. recursive_update_loop depth h dst its = Inr h'
          \<and> map_of h' dst = Some its' \<and> reps h' its' (deep_merge D S)
          \<and> dst \<notin> footprints h' its' (deep_merge D S)
          \<and> footprints h' its' (deep_merge D S) \<subseteq> footprints h d_its D \<union> footprints h its S
          \<and> (\<forall>q. q \<noteq> dst \<and> q \<notin> footprints h d_its D \<and> q \<notin> footprints h its S
                 \<longrightarrow> map_of h' q = map_of h q)"
proof (induction depth arbitrary: h dst d_its D its S)
  case 0
  show ?case by (rule loop_step [OF _ 0]) simp
next
  case (Suc n)
  show ?case
  proof (rule loop_step [OF _ Suc.prems])
    fix m h d d_items Dd s_items Ss
    assume "Suc n = Suc m"
    then have "m = n" by simp
    assume "map_of h d = Some d_items" "reps h d_items Dd" "d \<notin> footprints h d_items Dd"
      "reps h s_items Ss" "insert d (footprints h d_items Dd) \<inter> footprints h s_items Ss = {}"
      "nestings Ss \<le> m"
    then show "\<exists>h' its'. recursive_update_loop m h d s_items = Inr h'
        \<and> map_of h' d = Some its' \<and> reps h' its' (deep_merge Dd Ss)
        \<and> d \<notin> footprints h' its' (deep_merge Dd Ss)
        \<and> footprints h' its' (deep_merge Dd Ss) \<subseteq>
            footprints h d_items Dd \<union> footprints h s_items Ss
        \<and> (\<forall>q. q \<noteq> d \<and> q \<notin> footprints h d_items Dd \<and> q \<notin> footprints h s_items Ss
               \<longrightarrow> map_of h' q = map_of h q)"
      unfolding \<open>m = n\<close> by (rule Suc.IH)
  qed
qed

text \<open>
  C1. \<^verbatim>\<open>recursive_update\<close> updates the destination object in place and
  returns it. Let the destination object represent the dictionary \<open>D\<close> and the source
  object the dictionary \<open>S\<close> (its keys distinct, as in every dictionary), with no
  dictionary object reached twice: none in the destination, none in the source, and
  none in both. Let the interpreter allow as many nested calls as \<open>S\<close> is deep. Then the
  call returns the destination, which now represents the deep merge of \<open>D\<close> and \<open>S\<close>:
  for every key \<open>k\<close>, when \<open>k\<close> is not a key of \<open>S\<close> the entry of \<open>D\<close> is kept; when \<open>k\<close>
  is a key of both and both values are dictionaries, the entry is the recursive merge
  of the two; otherwise the value of \<open>S\<close> replaces the entry. Objects that belong
  neither to the destination nor to the source are not touched. And when \<open>S\<close> holds
  \<^verbatim>\<open>{x: 1}\<close> under \<open>a\<close> and \<open>D\<close> holds \<^verbatim>\<open>{x: 0, y: 2}\<close> under \<open>a\<close>, the merge holds
  \<^verbatim>\<open>{x: 1, y: 2}\<close> under \<open>a\<close>: the sibling key \<open>y\<close> keeps its value.
\<close>

theorem recursive_update_deep_merge:
  assumes "rep h (Ref dst) (PDict D)"
    and "rep h (Ref src) (PDict S)"
    and "footprint h (Ref dst) (PDict D) \<inter> footprint h (Ref src) (PDict S) = {}"
    and "nesting (PDict S) \<le> Suc depth"
    and "distinct (map fst S)"
  shows "\<exists>h'. recursive_update depth h dst src = Inr (dst, h')
           \<and> rep h' (Ref dst) (PDict (deep_merge D S))
           \<and> (\<forall>k. map_of (deep_merge D S) k =
                  (case map_of S k of
                     None \<Rightarrow> map_of D k
                   | Some v \<Rightarrow>
                       (case (map_of D k, v) of
                          (Some (PDict d), PDict s) \<Rightarrow> Some (PDict (deep_merge d s))
                        | _ \<Rightarrow> Some v)))
           \<and> (\<forall>q. q \<notin> footprint h (Ref dst) (PDict D) \<union> footprint h (Ref src) (PDict S)
                  \<longrightarrow> map_of h' q = map_of h q)
           \<and> (map_of S a = Some (PDict [(x, PInt 1)])
                \<and> map_of D a = Some (PDict [(x, PInt 0), (y, PInt 2)])
              \<longrightarrow> map_of (deep_merge D S) a = Some (PDict [(x, PInt 1), (y, PInt 2)]))"
proof -
  from assms(1) obtain d_its where md: "map_of h dst = Some d_its" and rd: "reps h d_its D"
    and nd: "dst \<notin> footprints h d_its D"
    by (auto split: option.splits)
  from assms(2) obtain its where ms: "map_of h src = Some its" and rs: "reps h its S"
    by (auto split: option.splits)
  have fd: "footprint h (Ref dst) (PDict D) = insert dst (footprints h d_its D)"
    using md by simp
  have fs: "footprint h (Ref src) (PDict S) = insert src (footprints h its S)"
    using ms by simp
  from assms(3) have sep: "insert dst (footprints h d_its D) \<inter> footprints h its S = {}"
    unfolding fd fs by auto
  from assms(4) have ne: "nestings S \<le> depth" by simp
  from loop_refines [OF md rd nd rs sep ne]
  obtain h' its' where l: "recursive_update_loop depth h dst its = Inr h'"
    and c1: "map_of h' dst = Some its'" and c2: "reps h' its' (deep_merge D S)"
    and c3: "dst \<notin> footprints h' its' (deep_merge D S)"
    and c5: "\<And>q. q \<noteq> dst \<Longrightarrow> q \<notin> footprints h d_its D \<Longrightarrow> q \<notin> footprints h its S
               \<Longrightarrow> map_of h' q = map_of h q"
    by blast
  have one: "recursive_update depth h dst src = Inr (dst, h')"
    by (simp add: recursive_update_def ms l)
  have two: "rep h' (Ref dst) (PDict (deep_merge D S))"
    using c1 c2 c3 by simp
  note three = deep_merge_lookup [OF assms(5), of D]
  have four: "map_of h' q = map_of h q"
    if "q \<notin> footprint h (Ref dst) (PDict D) \<union> footprint h (Ref src) (PDict S)" for q
  proof -
    from that have "q \<noteq> dst" "q \<notin> footprints h d_its D" "q \<notin> footprints h its S"
      unfolding fd fs by auto
    then show ?thesis by (rule c5)
  qed
  have five: "map_of (deep_merge D S) a = Some (PDict [(x, PInt 1), (y, PInt 2)])"
    if "map_of S a = Some (PDict [(x, PInt 1)])
        \<and> map_of D a = Some (PDict [(x, PInt 0), (y, PInt 2)])"
    using that unfolding three by simp
  from one two three four five show ?thesis by blast
qed

theorem recursive_update_deep_merge_witness:
  "rep separate_store (Ref 0)
     (PDict [(''a'', PDict [(''x'', PInt 0), (''y'', PInt 2)]), (''b'', PInt 5)])
   \<and> rep separate_store (Ref 1) (PDict [(''a'', PDict [(''x'', PInt 1)]), (''c'', PInt 7)])
   \<and> footprint separate_store (Ref 0)
        (PDict [(''a'', PDict [(''x'', PInt 0), (''y'', PInt 2)]), (''b'', PInt 5)])
      \<inter> footprint separate_store (Ref 1)
          (PDict [(''a'', PDict [(''x'', PInt 1)]), (''c'', PInt 7)]) = {}
   \<and> nesting (PDict [(''a'', PDict [(''x'', PInt 1)]), (''c'', PInt 7)]) \<le> Suc 1
   \<and> distinct (map fst [(''a'', PDict [(''x'', PInt 1)]), (''c'', PInt 7 :: pyval)])
   \<and> (\<exists>h'. recursive_update 1 separate_store 0 1 = Inr (0, h')
          \<and> rep h' (Ref 0)
               (PDict (deep_merge
                  [(''a'', PDict [(''x'', PInt 0), (''y'', PInt 2)]), (''b'', PInt 5)]
                  [(''a'', PDict [(''x'', PInt 1)]), (''c'', PInt 7)])))
   \<and> deep_merge [(''a'', PDict [(''x'', PInt 0), (''y'', PInt 2)]), (''b'', PInt 5)]
        [(''a'', PDict [(''x'', PInt 1)]), (''c'', PInt 7)] =
      [(''a'', PDict [(''x'', PInt 1), (''y'', PInt 2)]), (''b'', PInt 5), (''c'', PInt 7)]
   \<and> recursive_update 1 separate_store 0 1 =
      Inr (0, [(0, [(''a'', Ref 2), (''b'', Atom (PInt 5)), (''c'', Atom (PInt 7))]),
               (1, [(''a'', Ref 3), (''c'', Atom (PInt 7))]),
               (2, [(''x'', Atom (PInt 1)), (''y'', Atom (PInt 2))]),
               (3, [(''x'', Atom (PInt 1))])])"
proof -
  let ?D = "[(''a'', PDict [(''x'', PInt 0), (''y'', PInt 2)]), (''b'', PInt 5)]"
  let ?S = "[(''a'', PDict [(''x'', PInt 1)]), (''c'', PInt 7)]"
  have h1: "rep separate_store (Ref 0) (PDict ?D)" by (simp add: separate_store_def)
  have h2: "rep separate_store (Ref 1) (PDict ?S)" by (simp add: separate_store_def)
  have h3: "footprint separate_store (Ref 0) (PDict ?D)
            \<inter> footprint separate_store (Ref 1) (PDict ?S) = {}"
    by (simp add: separate_store_def)
  have h4: "nesting (PDict ?S) \<le> Suc 1" by simp
  have h5: "distinct (map fst ?S)" by simp
  from recursive_update_deep_merge [OF h1 h2 h3 h4 h5]
  have t: "\<exists>h'. recursive_update 1 separate_store 0 1 = Inr (0, h')
             \<and> rep h' (Ref 0) (PDict (deep_merge ?D ?S))"
    by blast
  have m: "deep_merge ?D ?S =
      [(''a'', PDict [(''x'', PInt 1), (''y'', PInt 2)]), (''b'', PInt 5), (''c'', PInt 7)]"
    by simp
  have r: "recursive_update 1 separate_store 0 1 =
      Inr (0, [(0, [(''a'', Ref 2), (''b'', Atom (PInt 5)), (''c'', Atom (PInt 7))]),
               (1, [(''a'', Ref 3), (''c'', Atom (PInt 7))]),
               (2, [(''x'', Atom (PInt 1)), (''y'', Atom (PInt 2))]),
               (3, [(''x'', Atom (PInt 1))])])"
    by (simp add: recursive_update_def separate_store_def get_item_def set_item_def)
  from h1 h2 h3 h4 h5 t m r show ?thesis by blast
qed

text \<open>
  For a destination that shares a dictionary the statement fails: a dictionary that the
  destination holds under two keys is one object, and a merge into it through one key
  shows under the other. In \<open>shared_store\<close> the destination is \<^verbatim>\<open>{a: D, b: D}\<close> with
  \<^verbatim>\<open>D = {x: 0, y: 2}\<close> and the source is \<^verbatim>\<open>{a: {x: 1}, b: {y: 5}}\<close>. Merged key by key
  by the deep merge, the destination would be \<^verbatim>\<open>{a: {x: 1, y: 2}, b: {x: 0, y: 5}}\<close>;
  the call leaves the object \<open>D\<close> as \<^verbatim>\<open>{x: 1, y: 5}\<close>, so the destination is
  \<^verbatim>\<open>{a: {x: 1, y: 5}, b: {x: 1, y: 5}}\<close>: under \<open>a\<close> the sibling key \<open>y\<close> has lost its
  value 2.
\<close>

theorem recursive_update_shared_dictionary:
  "recursive_update 1 shared_store 0 1 =
     Inr (0, [(0, [(''a'', Ref 2), (''b'', Ref 2)]),
              (1, [(''a'', Ref 3), (''b'', Ref 4)]),
              (2, [(''x'', Atom (PInt 1)), (''y'', Atom (PInt 5))]),
              (3, [(''x'', Atom (PInt 1))]),
              (4, [(''y'', Atom (PInt 5))])])
   \<and> deep_merge [(''a'', PDict [(''x'', PInt 0), (''y'', PInt 2)]),
                 (''b'', PDict [(''x'', PInt 0), (''y'', PInt 2)])]
        [(''a'', PDict [(''x'', PInt 1)]), (''b'', PDict [(''y'', PInt 5)])] =
      [(''a'', PDict [(''x'', PInt 1), (''y'', PInt 2)]),
       (''b'', PDict [(''x'', PInt 0), (''y'', PInt 5)])]"
  by (simp add: recursive_update_def shared_store_def get_item_def set_item_def)

section \<open>The default boundary conditions\<close>

text \<open>
  C2. For every list \<open>sys_comp\<close> of names of unknowns (and whatever else is passed by
  keyword), the dictionary returned by the default \<^verbatim>\<open>create_bcs\<close> has exactly the names
  of \<open>sys_comp\<close> as its keys, each of them once, and maps each of them to the empty list.
\<close>

theorem create_bcs_default:
  "fst ` set (create_bcs sys_comp NS_namespace) = set sys_comp
   \<and> distinct (map fst (create_bcs sys_comp NS_namespace))
   \<and> map_of (create_bcs sys_comp NS_namespace) =
       (\<lambda>ui. if ui \<in> set sys_comp then Some (PList []) else None)"
proof -
  have m: "map_of (create_bcs sys_comp NS_namespace) =
      (\<lambda>ui. if ui \<in> set sys_comp then Some (PList []) else None)"
    unfolding create_bcs_def by (rule map_of_py_dict_const)
  have d: "distinct (map fst (create_bcs sys_comp NS_namespace))"
    by (simp add: create_bcs_def py_dict_def distinct_dict_update)
  have "fst ` set (create_bcs sys_comp NS_namespace) =
        dom (map_of (create_bcs sys_comp NS_namespace))"
    by (simp add: dom_map_of_conv_image_fst)
  also have "\<dots> = set sys_comp"
    unfolding m by (auto split: if_splits)
  finally show ?thesis using m d by simp
qed

theorem create_bcs_default_witness:
  "fst ` set (create_bcs [''u0'', ''u1'', ''p''] [(''t'', PFloat 0)]) = {''u0'', ''u1'', ''p''}
   \<and> map_of (create_bcs [''u0'', ''u1'', ''p''] [(''t'', PFloat 0)]) ''p'' = Some (PList [])
   \<and> map_of (create_bcs [''u0'', ''u1'', ''p''] [(''t'', PFloat 0)]) ''q'' = None"
  using create_bcs_default [of "[''u0'', ''u1'', ''p'']" "[(''t'', PFloat 0)]"]
  by simp

section \<open>The L-shape overrides leave the Krylov parameters alone\<close>

text \<open>
  C10. \<^verbatim>\<open>problems/Lshape.py\<close> overrides the parameters with \<^verbatim>\<open>dict.update\<close>. Every value
  it passes is a scalar and none of its keys is \<^verbatim>\<open>krylov_solvers\<close>, so the entry
  \<^verbatim>\<open>krylov_solvers\<close> of \<^verbatim>\<open>NS_parameters\<close> after the update is the one before it: the
  dictionary of the seven defaults.
\<close>

theorem Lshape_keeps_krylov_solvers:
  "map_of Lshape_NS_parameters ''krylov_solvers'' = map_of NS_parameters ''krylov_solvers''
   \<and> map_of Lshape_NS_parameters ''krylov_solvers'' =
       Some (PDict
         [(''monitor_convergence'', PBool False),
          (''report'', PBool False),
          (''error_on_nonconvergence'', PBool False),
          (''nonzero_initial_guess'', PBool True),
          (''maximum_iterations'', PInt 200),
          (''relative_tolerance'', PFloat (1 / 10 ^ 8)),
          (''absolute_tolerance'', PFloat (1 / 10 ^ 8))])
   \<and> list_all is_scalar (map snd Lshape_overrides)
   \<and> ''krylov_solvers'' \<notin> fst ` set Lshape_overrides"
proof -
  have notin: "''krylov_solvers'' \<notin> fst ` set Lshape_overrides"
    by (simp add: Lshape_overrides_def)
  have same: "map_of Lshape_NS_parameters ''krylov_solvers'' =
      map_of NS_parameters ''krylov_solvers''"
    unfolding Lshape_NS_parameters_def by (rule dict_update_other [OF notin])
  have val: "map_of NS_parameters ''krylov_solvers'' = Some (PDict krylov_solvers)"
    by (simp add: NS_parameters_def)
  have sc: "list_all is_scalar (map snd Lshape_overrides)"
    by (simp add: Lshape_overrides_def)
  show ?thesis
    using notin same val sc by (simp add: krylov_solvers_def)
qed

section \<open>Keyword calls and unused context\<close>

lemma bind_kwargs_update:
  "k \<notin> set ps \<Longrightarrow>
   bind_kwargs ps (AList.update k v ctx) =
     (case bind_kwargs ps ctx of
        Inl e \<Rightarrow> Inl e
      | Inr (args, ns) \<Rightarrow> Inr (args, AList.update k v ns))"
proof (induction ps arbitrary: ctx)
  case Nil
  then show ?case by simp
next
  case (Cons p ps)
  then have "p \<noteq> k" "k \<notin> set ps" by auto
  then show ?case
    by (simp add: update_conv' delete_update Cons.IH split: option.splits sum.splits)
qed

lemma bind_kwargs_dict_update:
  "fst ` set extra \<inter> set ps = {} \<Longrightarrow>
   bind_kwargs ps (dict_update ctx extra) =
     (case bind_kwargs ps ctx of
        Inl e \<Rightarrow> Inl e
      | Inr (args, ns) \<Rightarrow> Inr (args, dict_update ns extra))"
proof (induction extra arbitrary: ctx)
  case Nil
  then show ?case by (simp add: dict_update_def split: sum.splits)
next
  case (Cons a extra)
  obtain k v where a: "a = (k, v)" by (cases a)
  from Cons.prems a have k: "k \<notin> set ps" and rest: "fst ` set extra \<inter> set ps = {}"
    by auto
  have step: "dict_update c (a # extra) = dict_update (AList.update k v c) extra" for c
    by (simp add: dict_update_def a)
  show ?case
    unfolding step Cons.IH [OF rest] bind_kwargs_update [OF k]
    by (simp split: sum.splits)
qed

lemma bind_kwargs_succeeds:
  "distinct ps \<Longrightarrow> set ps \<subseteq> fst ` set ctx \<Longrightarrow>
   \<exists>args ns. bind_kwargs ps ctx = Inr (args, ns)"
proof (induction ps arbitrary: ctx)
  case Nil
  then show ?case by simp
next
  case (Cons p ps)
  from Cons.prems obtain v where v: "map_of ctx p = Some v"
    by (cases "map_of ctx p") (auto simp: map_of_eq_None_iff)
  have "set ps \<subseteq> fst ` set (AList.delete p ctx)"
  proof
    fix q assume q: "q \<in> set ps"
    with Cons.prems have "q \<noteq> p" "q \<in> fst ` set ctx" by auto
    then have "map_of (AList.delete p ctx) q \<noteq> None"
      by (simp add: map_of_eq_None_iff)
    then show "q \<in> fst ` set (AList.delete p ctx)"
      by (simp add: map_of_eq_None_iff)
  qed
  with Cons.IH [of "AList.delete p ctx"] Cons.prems
  obtain args ns where "bind_kwargs ps (AList.delete p ctx) = Inr (args, ns)" by auto
  with v show ?case by simp
qed

lemmas hook_kw_defs =
  hook0_def hook1_def body_force_kw_def scalar_source_kw_def create_bcs_kw_def
  Lshape_create_bcs_kw_def Lshape_pre_solve_hook_kw_def
  Lshape_start_timestep_hook_kw_def Lshape_temporal_hook_kw_def

lemmas hook_body_defs =
  names_arg_def body_force_def scalar_source_def create_bcs_def
  initialize_def velocity_tentative_hook_def pressure_hook_def scalar_hook_def
  start_timestep_hook_def temporal_hook_def pre_solve_hook_def theend_hook_def
  Lshape_create_bcs_def Lshape_pre_solve_hook_def Lshape_start_timestep_hook_def
  Lshape_temporal_hook_def

lemma hooks_ignore_namespace:
  "h \<in> set (default_hooks @ Lshape_hooks) \<Longrightarrow>
   hook_body h args ns = hook_body h args ns'"
  unfolding default_hooks_def Lshape_hooks_def
  by (auto simp: hook_kw_defs hook_body_defs split: list.splits sum.splits)

lemma hooks_distinct_params:
  "h \<in> set (default_hooks @ Lshape_hooks) \<Longrightarrow> distinct (param_names h)"
  unfolding default_hooks_def Lshape_hooks_def
  by (auto simp: hook_kw_defs)

lemma call_hook_extra:
  assumes "h \<in> set (default_hooks @ Lshape_hooks)"
    and "fst ` set extra \<inter> set (param_names h) = {}"
  shows "call_hook h (dict_update ctx extra) = call_hook h ctx"
  unfolding call_hook_def bind_kwargs_dict_update [OF assms(2)]
  using hooks_ignore_namespace [OF assms(1)]
  by (auto split: sum.splits)

lemma Lshape_mesh_kw_extra:
  assumes "fst ` set extra \<inter> {''Nx'', ''Ny''} = {}"
  shows "Lshape_mesh_kw U uninitialised eps (dict_update ctx extra) =
         Lshape_mesh_kw U uninitialised eps ctx"
proof -
  have "fst ` set extra \<inter> set [''Nx'', ''Ny''] = {}" using assms by simp
  note b = bind_kwargs_dict_update [OF this]
  show ?thesis
    unfolding Lshape_mesh_kw_def b
    by (auto simp: Lshape_mesh_def split: sum.splits list.splits pyval.splits)
qed

text \<open>
  C8. Every hook of the two modules, called by keyword with a context \<open>ctx\<close>, gives the
  same result and the same effects when the context is extended by further entries
  \<open>extra\<close> whose keys are not names of the hook's own parameters; and when \<open>ctx\<close> holds
  all the hook's parameters, binding them from the extended context succeeds. The same
  holds for the mesh generator of the L-shape problem and its parameters \<open>Nx\<close>, \<open>Ny\<close>.
\<close>

theorem hooks_ignore_unused_context:
  assumes "h \<in> set (default_hooks @ Lshape_hooks)"
    and "set (param_names h) \<subseteq> fst ` set ctx"
    and "fst ` set extra \<inter> set (param_names h) = {}"
    and "fst ` set extra' \<inter> {''Nx'', ''Ny''} = {}"
  shows "call_hook h (dict_update ctx extra) = call_hook h ctx
         \<and> (\<exists>args ns. bind_kwargs (param_names h) (dict_update ctx extra) = Inr (args, ns))
         \<and> Lshape_mesh_kw U uninitialised eps (dict_update ctx' extra') =
             Lshape_mesh_kw U uninitialised eps ctx'"
proof -
  have one: "call_hook h (dict_update ctx extra) = call_hook h ctx"
    by (rule call_hook_extra [OF assms(1,3)])
  from bind_kwargs_succeeds [OF hooks_distinct_params [OF assms(1)] assms(2)]
  obtain args ns where "bind_kwargs (param_names h) ctx = Inr (args, ns)" by blast
  then have two: "\<exists>args ns. bind_kwargs (param_names h) (dict_update ctx extra) = Inr (args, ns)"
    unfolding bind_kwargs_dict_update [OF assms(3)] by simp
  have three: "Lshape_mesh_kw U uninitialised eps (dict_update ctx' extra') =
      Lshape_mesh_kw U uninitialised eps ctx'"
    by (rule Lshape_mesh_kw_extra [OF assms(4)])
  from one two three show ?thesis by blast
qed

theorem hooks_ignore_unused_context_witness:
  "Lshape_temporal_hook_kw \<in> set (default_hooks @ Lshape_hooks)
   \<and> set (param_names Lshape_temporal_hook_kw) \<subseteq>
       fst ` set [(''tstep'', PInt 4), (''q_'', PDict [(''p'', PObject ''Function'' [])]),
                  (''u_'', PObject ''Function'' []), (''uv'', PObject ''Function'' []),
                  (''Vv'', PObject ''VectorFunctionSpace'' []), (''plot_interval'', PInt 2)]
   \<and> fst ` set [(''nu'', PFloat (1 / 200)), (''folder'', PStr ''Lshape_results'')]
       \<inter> set (param_names Lshape_temporal_hook_kw) = {}
   \<and> fst ` set [(''T'', PInt 10)] \<inter> {''Nx'', ''Ny''} = {}
   \<and> call_hook Lshape_temporal_hook_kw
       (dict_update
          [(''tstep'', PInt 4), (''q_'', PDict [(''p'', PObject ''Function'' [])]),
           (''u_'', PObject ''Function'' []), (''uv'', PObject ''Function'' []),
           (''Vv'', PObject ''VectorFunctionSpace'' []), (''plot_interval'', PInt 2)]
          [(''nu'', PFloat (1 / 200)), (''folder'', PStr ''Lshape_results'')]) =
     (Inr PNone,
      [Plot (PObject ''Function'' []) ''Pressure'',
       Assign (PObject ''Function'' [])
         (PObject ''project'' [PObject ''Function'' [], PObject ''VectorFunctionSpace'' []]),
       Plot (PObject ''Function'' []) ''Velocity''])
   \<and> Lshape_mesh_kw (\<lambda>Nx Ny. Inr []) (\<lambda>i. 7) 0
        (dict_update [(''Nx'', PInt 40), (''Ny'', PInt 40)] [(''T'', PInt 10)]) = Inr []"
proof -
  have h: "Lshape_temporal_hook_kw \<in> set (default_hooks @ Lshape_hooks)"
    by (simp add: Lshape_hooks_def)
  have p: "param_names Lshape_temporal_hook_kw =
      [''tstep'', ''q_'', ''u_'', ''uv'', ''Vv'', ''plot_interval'']"
    by (simp add: Lshape_temporal_hook_kw_def)
  have c: "call_hook Lshape_temporal_hook_kw
       [(''tstep'', PInt 4), (''q_'', PDict [(''p'', PObject ''Function'' [])]),
        (''u_'', PObject ''Function'' []), (''uv'', PObject ''Function'' []),
        (''Vv'', PObject ''VectorFunctionSpace'' []), (''plot_interval'', PInt 2)] =
     (Inr PNone,
      [Plot (PObject ''Function'' []) ''Pressure'',
       Assign (PObject ''Function'' [])
         (PObject ''project'' [PObject ''Function'' [], PObject ''VectorFunctionSpace'' []]),
       Plot (PObject ''Function'' []) ''Velocity''])"
    by (simp add: call_hook_def Lshape_temporal_hook_kw_def Lshape_temporal_hook_def)
  have m: "Lshape_mesh_kw (\<lambda>Nx Ny. Inr []) (\<lambda>i. 7) 0 [(''Nx'', PInt 40), (''Ny'', PInt 40)] = Inr []"
    by (simp add: Lshape_mesh_kw_def Lshape_mesh_def MeshFunction_def set_all_def mark_def
        SubMesh_def)
  show ?thesis
    using hooks_ignore_unused_context
      [of Lshape_temporal_hook_kw
          "[(''tstep'', PInt 4), (''q_'', PDict [(''p'', PObject ''Function'' [])]),
            (''u_'', PObject ''Function'' []), (''uv'', PObject ''Function'' []),
            (''Vv'', PObject ''VectorFunctionSpace'' []), (''plot_interval'', PInt 2)]"
          "[(''nu'', PFloat (1 / 200)), (''folder'', PStr ''Lshape_results'')]"
          "[(''T'', PInt 10)]" "\<lambda>Nx Ny. Inr []" "\<lambda>i. 7" 0
          "[(''Nx'', PInt 40), (''Ny'', PInt 40)]"]
      h c m
    by (simp add: p)
qed

section \<open>The default hooks\<close>

text \<open>
  C3. Called by keyword with any context, the seven default hooks whose body is
  \<^verbatim>\<open>pass\<close> return \<^verbatim>\<open>None\<close> and \<^verbatim>\<open>pre_solve_hook\<close> returns the empty dictionary;
  \<^verbatim>\<open>body_force\<close>, given a mesh of geometric dimension \<open>d\<close>, returns the constant
  vector of \<open>d\<close> zeros, and \<^verbatim>\<open>scalar_source\<close>, given the names \<open>cs\<close>, returns the
  dictionary that maps each of them to the constant zero. None of the default hooks
  has an effect outside its own frame, whatever the context.
\<close>

theorem default_hooks_trivial:
  assumes "h \<in> set default_hooks"
    and "map_of ctx ''mesh'' = Some (PMesh d)"
    and "map_of ctx ''scalar_components'' = Some (PList (map PStr cs))"
  shows "snd (call_hook h ctx') = []
         \<and> call_hook (hook0 initialize) ctx' = (Inr PNone, [])
         \<and> call_hook (hook0 velocity_tentative_hook) ctx' = (Inr PNone, [])
         \<and> call_hook (hook0 pressure_hook) ctx' = (Inr PNone, [])
         \<and> call_hook (hook0 scalar_hook) ctx' = (Inr PNone, [])
         \<and> call_hook (hook0 start_timestep_hook) ctx' = (Inr PNone, [])
         \<and> call_hook (hook0 temporal_hook) ctx' = (Inr PNone, [])
         \<and> call_hook (hook0 theend_hook) ctx' = (Inr PNone, [])
         \<and> call_hook (hook0 pre_solve_hook) ctx' = (Inr (PDict []), [])
         \<and> call_hook body_force_kw ctx = (Inr (PConstant (PTuple (replicate d (PInt 0)))), [])
         \<and> (\<exists>src. call_hook scalar_source_kw ctx = (Inr (PDict src), [])
              \<and> map_of src = (\<lambda>ci. if ci \<in> set cs then Some (PConstant (PInt 0)) else None))"
proof -
  have eff: "snd (call_hook h ctx') = []"
    using assms(1) unfolding default_hooks_def call_hook_def
    by (auto simp: hook_kw_defs hook_body_defs
        split: option.splits sum.splits list.splits pyval.splits prod.splits)
  have pass: "call_hook (hook0 f) ctx' = f ctx'" for f
    by (simp add: call_hook_def hook0_def)
  have bf: "call_hook body_force_kw ctx =
      (Inr (PConstant (PTuple (replicate d (PInt 0)))), [])"
    using assms(2) by (simp add: call_hook_def body_force_kw_def hook1_def body_force_def)
  have names: "py_names (PList (map PStr cs)) = Inr cs"
    by (simp add: py_names_def list_all_iff comp_def)
  have ss: "call_hook scalar_source_kw ctx = (Inr (PDict (scalar_source cs (AList.delete ''scalar_components'' ctx))), [])"
    using assms(3)
    by (simp add: call_hook_def scalar_source_kw_def hook1_def names_arg_def names)
  have "map_of (scalar_source cs ns) =
      (\<lambda>ci. if ci \<in> set cs then Some (PConstant (PInt 0)) else None)" for ns
    unfolding scalar_source_def by (rule map_of_py_dict_const)
  with ss have sse: "\<exists>src. call_hook scalar_source_kw ctx = (Inr (PDict src), [])
              \<and> map_of src = (\<lambda>ci. if ci \<in> set cs then Some (PConstant (PInt 0)) else None)"
    by blast
  show ?thesis
    using eff bf sse
    by (simp add: pass initialize_def velocity_tentative_hook_def pressure_hook_def
        scalar_hook_def start_timestep_hook_def temporal_hook_def theend_hook_def
        pre_solve_hook_def)
qed

theorem default_hooks_trivial_witness:
  "body_force_kw \<in> set default_hooks
   \<and> map_of [(''mesh'', PMesh 2), (''scalar_components'', PList (map PStr [''c'']))] ''mesh'' =
       Some (PMesh 2)
   \<and> map_of [(''mesh'', PMesh 2), (''scalar_components'', PList (map PStr [''c'']))]
       ''scalar_components'' = Some (PList (map PStr [''c'']))
   \<and> snd (call_hook body_force_kw [(''t'', PFloat 0)]) = []
   \<and> call_hook (hook0 initialize) [(''t'', PFloat 0)] = (Inr PNone, [])
   \<and> call_hook (hook0 pre_solve_hook) [(''t'', PFloat 0)] = (Inr (PDict []), [])
   \<and> call_hook body_force_kw
        [(''mesh'', PMesh 2), (''scalar_components'', PList (map PStr [''c'']))] =
       (Inr (PConstant (PTuple [PInt 0, PInt 0])), [])"
proof -
  have h: "body_force_kw \<in> set default_hooks"
    by (simp add: default_hooks_def)
  have r: "replicate 2 (PInt 0) = [PInt 0, PInt 0]"
    by (simp add: numeral_2_eq_2)
  show ?thesis
    using default_hooks_trivial
      [of body_force_kw "[(''mesh'', PMesh 2), (''scalar_components'', PList (map PStr [''c'']))]"
          2 "[''c'']" "[(''t'', PFloat 0)]"]
      h
    by (simp add: r)
qed

text \<open>
  The default \<^verbatim>\<open>body_force\<close> and \<^verbatim>\<open>scalar_source\<close> return neither \<^verbatim>\<open>None\<close> nor an
  empty dictionary: for a two-dimensional mesh and one scalar component they return
  \<^verbatim>\<open>Constant((0, 0))\<close> and \<^verbatim>\<open>{'c': Constant(0)}\<close>.
\<close>

theorem default_hooks_not_all_empty:
  "call_hook body_force_kw [(''mesh'', PMesh 2)] =
     (Inr (PConstant (PTuple [PInt 0, PInt 0])), [])
   \<and> fst (call_hook body_force_kw [(''mesh'', PMesh 2)]) \<noteq> Inr PNone
   \<and> fst (call_hook body_force_kw [(''mesh'', PMesh 2)]) \<noteq> Inr (PDict [])
   \<and> call_hook scalar_source_kw [(''scalar_components'', PList [PStr ''c''])] =
       (Inr (PDict [(''c'', PConstant (PInt 0))]), [])
   \<and> fst (call_hook scalar_source_kw [(''scalar_components'', PList [PStr ''c''])]) \<noteq> Inr PNone
   \<and> fst (call_hook scalar_source_kw [(''scalar_components'', PList [PStr ''c''])]) \<noteq>
       Inr (PDict [])"
  by (simp add: call_hook_def body_force_kw_def scalar_source_kw_def hook1_def body_force_def
      names_arg_def py_names_def scalar_source_def py_dict_def dict_update_def numeral_2_eq_2)

section \<open>The L-shaped mesh\<close>

lemma mark_fresh:
  "mark inside mesh (set_all 0 (MeshFunction uninitialised mesh)) v =
     map (\<lambda>c. if cell_inside inside c then v else 0) mesh"
proof -
  have z: "zip mesh (map (\<lambda>_. 0::nat) [0..<length mesh]) = map (\<lambda>c. (c, 0)) mesh"
    by (induction mesh rule: rev_induct) auto
  show ?thesis
    by (simp add: mark_def set_all_def MeshFunction_def z comp_def)
qed

lemma SubMesh_marked:
  "SubMesh mesh (map (\<lambda>c. if P c then 1 else 0) mesh) 0 = filter (\<lambda>c. \<not> P c) mesh"
  unfolding SubMesh_def by (induction mesh) auto

lemma sum_list_above:
  fixes a :: real
  shows "xs \<noteq> [] \<Longrightarrow> list_all (\<lambda>x. a < x) xs \<Longrightarrow> a * real (length xs) < sum_list xs"
proof (induction xs)
  case Nil
  then show ?case by simp
next
  case (Cons x xs)
  show ?case
  proof (cases "xs = []")
    case True
    with Cons.prems show ?thesis by simp
  next
    case False
    with Cons have "a * real (length xs) < sum_list xs" by simp
    moreover from Cons.prems have "a < x" by simp
    ultimately show ?thesis by (simp add: algebra_simps)
  qed
qed

lemma mean_above:
  fixes a :: real
  assumes "xs \<noteq> []" and "list_all (\<lambda>x. a < x) xs"
  shows "a < sum_list xs / real (length xs)"
proof -
  have pos: "0 < real (length xs)" using assms(1) by simp
  from sum_list_above [OF assms] show ?thesis
    using pos by (simp add: pos_less_divide_eq)
qed

lemma cell_inside_vertices:
  assumes "c \<noteq> []"
  shows "cell_inside (Submesh_inside eps) c \<longleftrightarrow>
         list_all (\<lambda>x. fst x > 1 / 4 - eps \<and> snd x > 1 / 4 - eps) c"
proof
  assume "cell_inside (Submesh_inside eps) c"
  then show "list_all (\<lambda>x. fst x > 1 / 4 - eps \<and> snd x > 1 / 4 - eps) c"
    by (simp add: cell_inside_def Submesh_inside_def)
next
  assume a: "list_all (\<lambda>x. fst x > 1 / 4 - eps \<and> snd x > 1 / 4 - eps) c"
  then have "list_all (\<lambda>x. 1 / 4 - eps < x) (map fst c)"
    and "list_all (\<lambda>x. 1 / 4 - eps < x) (map snd c)"
    by (simp_all add: list_all_iff)
  with assms have "1 / 4 - eps < sum_list (map fst c) / real (length c)"
    and "1 / 4 - eps < sum_list (map snd c) / real (length c)"
    using mean_above [of "map fst c" "1 / 4 - eps"] mean_above [of "map snd c" "1 / 4 - eps"]
    by simp_all
  with a show "cell_inside (Submesh_inside eps) c"
    by (simp add: cell_inside_def Submesh_inside_def midpoint_def)
qed

text \<open>The cells of the unit square mesh at resolution 40 by 40, and where they lie.\<close>

lemma UnitSquareMesh_cells:
  assumes "UnitSquareMesh 40 40 = Inr cells" and "c \<in> set cells"
  shows "\<exists>i<40. \<exists>j<40. c \<in> set (grid_cells 40 40 i j)"
proof -
  from assms obtain i j where "i < 40" and "j < 40" and "c \<in> set (grid_cells 40 40 i j)"
    by (auto simp: UnitSquareMesh_def)
  then show ?thesis by blast
qed

lemma grid_line:
  fixes eps :: real
  assumes "0 < eps" and "eps < 1 / 40"
  shows "1 / 4 - eps < real n / 40 \<longleftrightarrow> 10 \<le> n"
proof
  assume a: "1 / 4 - eps < real n / 40"
  show "10 \<le> n"
  proof (rule ccontr)
    assume "\<not> 10 \<le> n"
    then have "n \<le> 9" by simp
    then have "real n \<le> 9" by simp
    then have "real n / 40 \<le> 9 / 40" by simp
    with a assms(2) show False by simp
  qed
next
  assume "10 \<le> n"
  then have "10 \<le> real n" by simp
  then have "1 / 4 \<le> real n / 40" by simp
  with assms(1) show "1 / 4 - eps < real n / 40" by simp
qed

lemma grid_cells_inside:
  fixes eps :: real
  assumes "0 < eps" and "eps < 1 / 40" and "c \<in> set (grid_cells 40 40 i j)"
  shows "list_all (\<lambda>x. fst x > 1 / 4 - eps \<and> snd x > 1 / 4 - eps) c \<longleftrightarrow> 10 \<le> i \<and> 10 \<le> j"
proof -
  define X where "X n \<longleftrightarrow> 1 / 4 - eps < real n / 40" for n
  have g: "X n \<longleftrightarrow> 10 \<le> n" for n
    unfolding X_def by (rule grid_line [OF assms(1,2)])
  from assms(3)
  have "list_all (\<lambda>x. fst x > 1 / 4 - eps \<and> snd x > 1 / 4 - eps) c \<longleftrightarrow>
      X i \<and> X j \<and> X (Suc i) \<and> X (Suc j)"
    by (auto simp: grid_cells_def Let_def X_def)
  then show ?thesis unfolding g by auto
qed

lemma grid_cells_nonempty:
  "c \<in> set (grid_cells Nx Ny i j) \<Longrightarrow> c \<noteq> []"
  by (auto simp: grid_cells_def Let_def)

lemma grid_cells_kept:
  assumes "c \<in> set (grid_cells 40 40 i j)" and "\<not> (10 \<le> i \<and> 10 \<le> j)"
  shows "list_all (\<lambda>x. fst x \<le> 1 / 4) c \<or> list_all (\<lambda>x. snd x \<le> 1 / 4) c"
proof -
  have a: "n < 10 \<Longrightarrow> real n / 40 \<le> 1 / 4 \<and> (1 + real n) / 40 \<le> 1 / 4" for n :: nat
  proof -
    assume "n < 10"
    then have "real n \<le> 9" by simp
    then show ?thesis by simp
  qed
  from assms(2) have "i < 10 \<or> j < 10" by auto
  with assms(1) a [of i] a [of j] show ?thesis
    by (auto simp: grid_cells_def Let_def)
qed

lemma grid_cells_removed:
  assumes "c \<in> set (grid_cells 40 40 i j)" and "10 \<le> i" and "10 \<le> j"
  shows "list_all (\<lambda>x. 1 / 4 \<le> fst x \<and> 1 / 4 \<le> snd x) c"
proof -
  have a: "10 \<le> n \<Longrightarrow> 1 / 4 \<le> real n / 40 \<and> 1 / 4 \<le> (1 + real n) / 40" for n :: nat
  proof -
    assume "10 \<le> n"
    then have "10 \<le> real n" by simp
    then show ?thesis by simp
  qed
  from assms(1) a [OF assms(2)] a [OF assms(3)] show ?thesis
    by (auto simp: grid_cells_def Let_def)
qed

lemma weighted_sum_le:
  fixes b :: real
  assumes "length w = length xs" and "list_all (\<lambda>a. 0 \<le> a) w" and "list_all (\<lambda>x. x \<le> b) xs"
  shows "sum_list (map2 (\<lambda>a x. a * x) w xs) \<le> b * sum_list w"
  using assms
proof (induction w xs rule: list_induct2)
  case Nil
  then show ?case by simp
next
  case (Cons a w x xs)
  then have "sum_list (map2 (\<lambda>a x. a * x) w xs) \<le> b * sum_list w" by simp
  moreover from Cons.prems have "a * x \<le> a * b" by (simp add: mult_left_mono)
  ultimately show ?case by (simp add: algebra_simps)
qed

lemma cell_point_le:
  assumes "length w = length c" and "list_all (\<lambda>a. 0 \<le> a) w" and "sum_list w = 1"
  shows "list_all (\<lambda>x. fst x \<le> b) c \<Longrightarrow> fst (cell_point w c) \<le> b"
    and "list_all (\<lambda>x. snd x \<le> b) c \<Longrightarrow> snd (cell_point w c) \<le> b"
proof -
  have f: "map2 (\<lambda>a x. a * fst x) w c = map2 (\<lambda>a x. a * x) w (map fst c)"
    by (simp add: zip_map2 comp_def case_prod_unfold)
  have s: "map2 (\<lambda>a x. a * snd x) w c = map2 (\<lambda>a x. a * x) w (map snd c)"
    by (simp add: zip_map2 comp_def case_prod_unfold)
  show "list_all (\<lambda>x. fst x \<le> b) c \<Longrightarrow> fst (cell_point w c) \<le> b"
    using weighted_sum_le [of w "map fst c" b] assms
    by (simp add: cell_point_def f list_all_iff)
  show "list_all (\<lambda>x. snd x \<le> b) c \<Longrightarrow> snd (cell_point w c) \<le> b"
    using weighted_sum_le [of w "map snd c" b] assms
    by (simp add: cell_point_def s list_all_iff)
qed

lemma Lshape_mesh_filter:
  assumes "UnitSquareMesh 40 40 = Inr cells" and "0 < eps" and "eps < 1 / 40"
  shows "mark (Submesh_inside eps) cells (set_all 0 (MeshFunction uninitialised cells)) 1 =
           map (\<lambda>c. if list_all (\<lambda>x. fst x > 1 / 4 - eps \<and> snd x > 1 / 4 - eps) c
                    then 1 else 0) cells"
    and "Lshape_mesh UnitSquareMesh uninitialised eps 40 40 params =
           Inr (filter (\<lambda>c. \<not> list_all (\<lambda>x. fst x > 1 / 4 - eps \<and> snd x > 1 / 4 - eps) c)
                  cells)"
proof -
  have ne: "c \<in> set cells \<Longrightarrow> c \<noteq> []" for c
    using UnitSquareMesh_cells [OF assms(1)] grid_cells_nonempty by blast
  have m: "map (\<lambda>c. if cell_inside (Submesh_inside eps) c then 1 else (0::nat)) cells =
      map (\<lambda>c. if list_all (\<lambda>x. fst x > 1 / 4 - eps \<and> snd x > 1 / 4 - eps) c
               then 1 else 0) cells"
    by (rule map_cong [OF refl]) (simp add: cell_inside_vertices [OF ne])
  show k: "mark (Submesh_inside eps) cells (set_all 0 (MeshFunction uninitialised cells)) 1 =
           map (\<lambda>c. if list_all (\<lambda>x. fst x > 1 / 4 - eps \<and> snd x > 1 / 4 - eps) c
                    then 1 else 0) cells"
    unfolding mark_fresh m ..
  have "Lshape_mesh UnitSquareMesh uninitialised eps 40 40 params =
      Inr (SubMesh cells
             (mark (Submesh_inside eps) cells (set_all 0 (MeshFunction uninitialised cells)) 1)
             0)"
    using assms(1) by (simp add: Lshape_mesh_def)
  then show "Lshape_mesh UnitSquareMesh uninitialised eps 40 40 params =
           Inr (filter (\<lambda>c. \<not> list_all (\<lambda>x. fst x > 1 / 4 - eps \<and> snd x > 1 / 4 - eps) c)
                  cells)"
    unfolding k SubMesh_marked .
qed

text \<open>
  C4. At the resolution \<open>Nx = 40\<close>, \<open>Ny = 40\<close>, for a tolerance \<open>eps\<close> between 0 and the
  mesh width 1/40 (\<^verbatim>\<open>DOLFIN_EPS\<close> is about 3e-16) and whatever the new marker array
  holds: the generator returns a mesh \<open>L\<close>. The predicate of the sub-domain holds of a
  point exactly when both coordinates exceed \<open>0.25 - eps\<close>; after the marking a cell of
  the unit square mesh carries marker 1 exactly when all its vertices satisfy the
  predicate, and marker 0 otherwise; \<open>L\<close> is the extraction of the cells with marker 0,
  that is the cells of the unit square mesh with a vertex that does not satisfy the
  predicate, in their order. The domain returned excludes the sub-square: every cell of
  \<open>L\<close> lies in the strip \<open>x[0] \<le> 0.25\<close> or in the strip \<open>x[1] \<le> 0.25\<close>, so no point of
  a cell of \<open>L\<close> has both coordinates above 0.25. Only the sub-square is excluded:
  every cell that is not returned has all its vertices at \<open>x[0] \<ge> 0.25\<close> and
  \<open>x[1] \<ge> 0.25\<close>. The cell at the origin is returned and the cell at the corner
  (1, 1) is not.
\<close>

theorem Lshape_mesh_excludes_subsquare:
  assumes "0 < eps" and "eps < 1 / 40"
  shows "\<exists>cells L.
           UnitSquareMesh 40 40 = Inr cells
         \<and> Lshape_mesh UnitSquareMesh uninitialised eps 40 40 params = Inr L
         \<and> (Submesh_inside eps x on_boundary \<longleftrightarrow> fst x > 1 / 4 - eps \<and> snd x > 1 / 4 - eps)
         \<and> mark (Submesh_inside eps) cells (set_all 0 (MeshFunction uninitialised cells)) 1 =
             map (\<lambda>c. if list_all (\<lambda>x. fst x > 1 / 4 - eps \<and> snd x > 1 / 4 - eps) c
                      then 1 else 0) cells
         \<and> L = SubMesh cells
                 (mark (Submesh_inside eps) cells
                    (set_all 0 (MeshFunction uninitialised cells)) 1) 0
         \<and> L = filter (\<lambda>c. \<not> list_all (\<lambda>x. fst x > 1 / 4 - eps \<and> snd x > 1 / 4 - eps) c)
                 cells
         \<and> (\<forall>c \<in> set L. list_all (\<lambda>x. fst x \<le> 1 / 4) c \<or> list_all (\<lambda>x. snd x \<le> 1 / 4) c)
         \<and> (\<forall>c \<in> set L. \<forall>w. length w = length c \<and> list_all (\<lambda>a. 0 \<le> a) w \<and> sum_list w = 1
               \<longrightarrow> \<not> (1 / 4 < fst (cell_point w c) \<and> 1 / 4 < snd (cell_point w c)))
         \<and> (\<forall>c \<in> set cells. c \<notin> set L \<longrightarrow> list_all (\<lambda>x. 1 / 4 \<le> fst x \<and> 1 / 4 \<le> snd x) c)
         \<and> [(0, 0), (1 / 40, 0), (1 / 40, 1 / 40)] \<in> set L
         \<and> [(39 / 40, 39 / 40), (1, 39 / 40), (1, 1)] \<in> set cells - set L"
proof -
  define cells where
    "cells = concat (map (\<lambda>j. concat (map (\<lambda>i. grid_cells 40 40 i j) [0..<40])) [0..<40])"
  define P where
    "P c \<longleftrightarrow> list_all (\<lambda>x. fst x > 1 / 4 - eps \<and> snd x > 1 / 4 - eps) c" for c :: cell
  define L where "L = filter (\<lambda>c. \<not> P c) cells"
  have u: "UnitSquareMesh 40 40 = Inr cells"
    by (simp add: UnitSquareMesh_def cells_def)
  note f = Lshape_mesh_filter [OF u assms, of uninitialised, folded P_def L_def]
  have l: "Lshape_mesh UnitSquareMesh uninitialised eps 40 40 params = Inr L"
    by (rule f(2))
  have s: "L = SubMesh cells
                 (mark (Submesh_inside eps) cells
                    (set_all 0 (MeshFunction uninitialised cells)) 1) 0"
    using l u by (simp add: Lshape_mesh_def)
  have mem: "c \<in> set cells \<Longrightarrow> \<exists>i<40. \<exists>j<40. c \<in> set (grid_cells 40 40 i j)" for c
    by (rule UnitSquareMesh_cells [OF u])
  have kept: "list_all (\<lambda>x. fst x \<le> 1 / 4) c \<or> list_all (\<lambda>x. snd x \<le> 1 / 4) c"
    if "c \<in> set L" for c
  proof -
    from that have c: "c \<in> set cells" and n: "\<not> P c" by (simp_all add: L_def)
    from mem [OF c] obtain i j where g: "c \<in> set (grid_cells 40 40 i j)" by blast
    from n have "\<not> (10 \<le> i \<and> 10 \<le> j)"
      unfolding P_def grid_cells_inside [OF assms g] .
    then show ?thesis by (rule grid_cells_kept [OF g])
  qed
  have points: "\<not> (1 / 4 < fst (cell_point w c) \<and> 1 / 4 < snd (cell_point w c))"
    if "c \<in> set L" and "length w = length c \<and> list_all (\<lambda>a. 0 \<le> a) w \<and> sum_list w = 1"
    for c w
  proof -
    from that(2) have w: "length w = length c" "list_all (\<lambda>a. 0 \<le> a) w" "sum_list w = 1"
      by simp_all
    from kept [OF that(1)] cell_point_le [OF w, of "1 / 4"]
    have "fst (cell_point w c) \<le> 1 / 4 \<or> snd (cell_point w c) \<le> 1 / 4" by blast
    then show ?thesis by auto
  qed
  have removed: "list_all (\<lambda>x. 1 / 4 \<le> fst x \<and> 1 / 4 \<le> snd x) c"
    if "c \<in> set cells" and "c \<notin> set L" for c
  proof -
    from that have p: "P c" by (simp add: L_def)
    from mem [OF that(1)] obtain i j where g: "c \<in> set (grid_cells 40 40 i j)" by blast
    from p have "10 \<le> i \<and> 10 \<le> j"
      unfolding P_def grid_cells_inside [OF assms g] .
    then show ?thesis using grid_cells_removed [OF g] by blast
  qed
  have g0: "[(0, 0), (1 / 40, 0), (1 / 40, 1 / 40)] \<in> set (grid_cells 40 40 0 0)"
    by (simp add: grid_cells_def Let_def)
  have g1: "[(39 / 40, 39 / 40), (1, 39 / 40), (1, 1)] \<in> set (grid_cells 40 40 39 39)"
    by (simp add: grid_cells_def Let_def)
  have in_cells: "c \<in> set (grid_cells 40 40 i j) \<Longrightarrow> i < 40 \<Longrightarrow> j < 40 \<Longrightarrow> c \<in> set cells"
    for c i j
    unfolding cells_def
    apply simp
    apply (rule bexI [of _ j])
     apply (rule bexI [of _ i])
      apply simp_all
    done
  have c0: "[(0, 0), (1 / 40, 0), (1 / 40, 1 / 40)] \<in> set cells"
    by (rule in_cells [OF g0]) simp_all
  have c1: "[(39 / 40, 39 / 40), (1, 39 / 40), (1, 1)] \<in> set cells"
    by (rule in_cells [OF g1]) simp_all
  have origin: "[(0, 0), (1 / 40, 0), (1 / 40, 1 / 40)] \<in> set L"
    using c0 grid_cells_inside [OF assms g0] by (simp add: L_def P_def)
  have corner: "[(39 / 40, 39 / 40), (1, 39 / 40), (1, 1)] \<in> set cells - set L"
    using c1 grid_cells_inside [OF assms g1] by (simp add: L_def P_def)
  have i: "Submesh_inside eps x on_boundary \<longleftrightarrow> fst x > 1 / 4 - eps \<and> snd x > 1 / 4 - eps"
    by (simp add: Submesh_inside_def)
  show ?thesis
    apply (rule exI [of _ cells])
    apply (rule exI [of _ L])
    using u l i f(1) s kept points removed origin corner
    unfolding L_def P_def
    by blast
qed

theorem Lshape_mesh_excludes_subsquare_witness:
  "(0 :: real) < 3 / 10 ^ 16 \<and> (3 :: real) / 10 ^ 16 < 1 / 40
   \<and> (\<exists>L. Lshape_mesh UnitSquareMesh (\<lambda>i. i) (3 / 10 ^ 16) 40 40 [] = Inr L
          \<and> [(0, 0), (1 / 40, 0), (1 / 40, 1 / 40)] \<in> set L
          \<and> [(39 / 40, 39 / 40), (1, 39 / 40), (1, 1)] \<notin> set L)"
proof -
  have h1: "(0 :: real) < 3 / 10 ^ 16" by simp
  have h2: "(3 :: real) / 10 ^ 16 < 1 / 40" by simp
  from Lshape_mesh_excludes_subsquare
    [OF h1 h2, where uninitialised = "\<lambda>i. i" and params = "[]"]
  show ?thesis using h1 h2 by blast
qed

section \<open>The walls of the L-shape problem\<close>

text \<open>
  C9. In \<^verbatim>\<open>walls\<close> the flag \<open>on_boundary\<close> guards the last disjunct only. A point
  with \<open>x[0]\<close> or \<open>x[1]\<close> near 0 is on the walls whether \<open>on_boundary\<close> is true or false;
  any other point is on the walls exactly when both coordinates exceed
  \<open>0.25 - 5 * eps\<close> and \<open>on_boundary\<close> is true.
\<close>

theorem walls_on_boundary_guards_corner_only:
  "(near (fst x) 0 \<or> near (snd x) 0 \<longrightarrow>
      walls near eps x True \<and> walls near eps x False)
   \<and> (\<not> near (fst x) 0 \<and> \<not> near (snd x) 0 \<longrightarrow>
        (walls near eps x on_boundary \<longleftrightarrow>
           fst x > 1 / 4 - 5 * eps \<and> snd x > 1 / 4 - 5 * eps \<and> on_boundary))"
  by (auto simp: walls_def)

theorem walls_on_boundary_guards_corner_only_witness:
  "(\<lambda>a b. \<bar>a - b\<bar> < 3 / 10 ^ 16) (fst (0::real, 1 / 2 :: real)) 0
   \<and> walls (\<lambda>a b. \<bar>a - b\<bar> < 3 / 10 ^ 16) (3 / 10 ^ 16) (0, 1 / 2) True
   \<and> walls (\<lambda>a b. \<bar>a - b\<bar> < 3 / 10 ^ 16) (3 / 10 ^ 16) (0, 1 / 2) False
   \<and> \<not> (\<lambda>a b. \<bar>a - b\<bar> < 3 / 10 ^ 16) (fst (1 / 2 :: real, 1 / 2 :: real)) 0
   \<and> \<not> (\<lambda>a b. \<bar>a - b\<bar> < 3 / 10 ^ 16) (snd (1 / 2 :: real, 1 / 2 :: real)) 0
   \<and> walls (\<lambda>a b. \<bar>a - b\<bar> < 3 / 10 ^ 16) (3 / 10 ^ 16) (1 / 2, 1 / 2) True
   \<and> \<not> walls (\<lambda>a b. \<bar>a - b\<bar> < 3 / 10 ^ 16) (3 / 10 ^ 16) (1 / 2, 1 / 2) False"
  using walls_on_boundary_guards_corner_only
    [of "\<lambda>a b. \<bar>a - b\<bar> < 3 / 10 ^ 16" "(0, 1 / 2)" "3 / 10 ^ 16" True]
    walls_on_boundary_guards_corner_only
    [of "\<lambda>a b. \<bar>a - b\<bar> < 3 / 10 ^ 16" "(1 / 2, 1 / 2)" "3 / 10 ^ 16" True]
    walls_on_boundary_guards_corner_only
    [of "\<lambda>a b. \<bar>a - b\<bar> < 3 / 10 ^ 16" "(1 / 2, 1 / 2)" "3 / 10 ^ 16" False]
  by simp

section \<open>Rank-gated logging\<close>

lemma mpi_run_rank0:
  assumes "0 < nprocs" and "f 0 = out" and "\<And>rank. 0 < rank \<Longrightarrow> f rank = []"
  shows "mpi_run nprocs f = out"
proof -
  from assms(1) obtain m where n: "nprocs = Suc m" by (cases nprocs) auto
  have "concat (map f [Suc 0..<Suc m]) = []"
    using assms(3) by (induction m) auto
  then show ?thesis
    unfolding mpi_run_def n upt_rec [of 0 "Suc m"] using assms(2) by simp
qed

text \<open>
  C5. \<^verbatim>\<open>info_blue\<close>, \<^verbatim>\<open>info_green\<close> and \<^verbatim>\<open>info_red\<close> print the status string, in
  their colour, exactly when the rank of the calling process is 0 and \<open>check\<close> is true.
  So when every process of a run calls one of them with the same string and \<open>check\<close>
  true, the console receives the line once, however many processes there are; with
  \<open>check\<close> false it receives nothing.
\<close>

theorem info_rank_gated:
  assumes "0 < nprocs"
  shows "info_blue rank s check = (if rank = 0 \<and> check then [Print (BLUE s)] else [])
         \<and> info_green rank s check = (if rank = 0 \<and> check then [Print (GREEN s)] else [])
         \<and> info_red rank s check = (if rank = 0 \<and> check then [Print (RED s)] else [])
         \<and> mpi_run nprocs (\<lambda>rank. info_blue rank s True) = [Print (BLUE s)]
         \<and> mpi_run nprocs (\<lambda>rank. info_green rank s True) = [Print (GREEN s)]
         \<and> mpi_run nprocs (\<lambda>rank. info_red rank s True) = [Print (RED s)]
         \<and> mpi_run nprocs (\<lambda>rank. info_blue rank s False) = []
         \<and> mpi_run nprocs (\<lambda>rank. info_green rank s False) = []
         \<and> mpi_run nprocs (\<lambda>rank. info_red rank s False) = []"
proof -
  have b: "mpi_run nprocs (\<lambda>rank. info_blue rank s True) = [Print (BLUE s)]"
    by (rule mpi_run_rank0 [OF assms]) (simp_all add: info_blue_def)
  have g: "mpi_run nprocs (\<lambda>rank. info_green rank s True) = [Print (GREEN s)]"
    by (rule mpi_run_rank0 [OF assms]) (simp_all add: info_green_def)
  have r: "mpi_run nprocs (\<lambda>rank. info_red rank s True) = [Print (RED s)]"
    by (rule mpi_run_rank0 [OF assms]) (simp_all add: info_red_def)
  have b': "mpi_run nprocs (\<lambda>rank. info_blue rank s False) = []"
    by (rule mpi_run_rank0 [OF assms]) (simp_all add: info_blue_def)
  have g': "mpi_run nprocs (\<lambda>rank. info_green rank s False) = []"
    by (rule mpi_run_rank0 [OF assms]) (simp_all add: info_green_def)
  have r': "mpi_run nprocs (\<lambda>rank. info_red rank s False) = []"
    by (rule mpi_run_rank0 [OF assms]) (simp_all add: info_red_def)
  show ?thesis
    using b g r b' g' r' by (simp add: info_blue_def info_green_def info_red_def)
qed

theorem info_rank_gated_witness:
  "(0::nat) < 1 \<and> (0::nat) < 2 \<and> (0::nat) < 16
   \<and> mpi_run 1 (\<lambda>rank. info_blue rank ''Start'' True) = [Print (BLUE ''Start'')]
   \<and> mpi_run 2 (\<lambda>rank. info_green rank ''Start'' True) = [Print (GREEN ''Start'')]
   \<and> mpi_run 16 (\<lambda>rank. info_red rank ''Start'' True) = [Print (RED ''Start'')]
   \<and> mpi_run 16 (\<lambda>rank. info_blue rank ''Start'' False) = []
   \<and> info_blue 3 ''Start'' True = []"
  using info_rank_gated [of 1 0 "''Start''" True] info_rank_gated [of 2 0 "''Start''" True]
    info_rank_gated [of 16 3 "''Start''" True]
  by simp

section \<open>Memory usage reports\<close>

text \<open>
  C6. Take any state of an \<^verbatim>\<open>OasisMemoryUsage\<close> object and call it twice.
  If the four probes of the two calls return the integers \<open>a1\<close>, \<open>b1\<close> and then \<open>a2\<close>,
  \<open>b2\<close>, both calls return, and after the second call the cumulative values \<open>memory\<close>
  and \<open>memory_vm\<close> are the sums of the second readings over the processes, \<open>prev\<close> and
  \<open>prev_vm\<close> are the sums of the first readings, and the differences \<open>memory - prev\<close>
  and \<open>memory_vm - prev_vm\<close> are the second sums minus the first sums. The line the
  second call prints (on rank 0, when verbose) reports exactly these four numbers. A
  cumulative value is not negative when the readings that enter it are not negative.
  A call whose first probe raises, raises the same exception, prints nothing, and
  leaves the object with \<open>prev\<close> and \<open>prev_vm\<close> already overwritten; a call whose
  second probe raises has overwritten \<open>memory\<close> as well.
\<close>

theorem OasisMemoryUsage_delta:
  assumes "probe1 True = Inr (PInt a1)" and "probe1 False = Inr (PInt b1)"
    and "probe2 True = Inr (PInt a2)" and "probe2 False = Inr (PInt b2)"
    and "probe3 True = Inl e"
    and "probe4 True = Inr (PInt a4)" and "probe4 False = Inl e'"
  shows
    "(let first = OasisMemoryUsage_call probe1 others1 others_vm1 rank1 self s1 verbose1;
          second = OasisMemoryUsage_call probe2 others2 others_vm2 rank2 (fst (snd first))
                     s2 verbose2;
          obj = fst (snd second);
          m1 = a1 + sum_list others1; vm1 = b1 + sum_list others_vm1;
          m2 = a2 + sum_list others2; vm2 = b2 + sum_list others_vm2
      in fst first = Inr () \<and> fst second = Inr ()
         \<and> obj = \<lparr>memory = m2, memory_vm = vm2, prev = m1, prev_vm = vm1\<rparr>
         \<and> memory obj - prev obj = m2 - m1
         \<and> memory_vm obj - prev_vm obj = vm2 - vm1
         \<and> snd (snd second) =
             (if rank2 = 0 \<and> verbose2 then
                [Print (BLUE (memory_line s2 (m2 - m1) m2 (vm2 - vm1) vm2))]
              else [])
         \<and> (0 \<le> a2 \<and> list_all (\<lambda>r. 0 \<le> r) others2 \<longrightarrow> 0 \<le> memory obj)
         \<and> (0 \<le> b2 \<and> list_all (\<lambda>r. 0 \<le> r) others_vm2 \<longrightarrow> 0 \<le> memory_vm obj)
         \<and> OasisMemoryUsage_call probe3 others3 others_vm3 rank3 self s3 verbose3 =
             (Inl e, self\<lparr>prev := memory self, prev_vm := memory_vm self\<rparr>, [])
         \<and> OasisMemoryUsage_call probe4 others4 others_vm4 rank4 self s4 verbose4 =
             (Inl e', self\<lparr>prev := memory self, prev_vm := memory_vm self,
                              memory := a4 + sum_list others4\<rparr>, []))"
  using assms
  by (simp add: OasisMemoryUsage_call_def Let_def info_blue_def MPI_sum_def
      OasisMemoryUsage.equality list_all_iff sum_list_nonneg)

theorem OasisMemoryUsage_delta_witness:
  "(let first = OasisMemoryUsage_call (\<lambda>rss. Inr (PInt (if rss then 500 else 2000)))
                  [600] [2500] 0 \<lparr>memory = 3, memory_vm = 4, prev = 1, prev_vm = 2\<rparr>
                  ''Start'' False;
        second = OasisMemoryUsage_call (\<lambda>rss. Inr (PInt (if rss then 700 else 3000)))
                   [800] [4000] 0 (fst (snd first)) ''mesh'' True
    in fst first = Inr () \<and> fst second = Inr ()
       \<and> fst (snd second) = \<lparr>memory = 1500, memory_vm = 7000, prev = 1100, prev_vm = 4500\<rparr>
       \<and> snd (snd second) = [Print (BLUE (memory_line ''mesh'' 400 1500 2500 7000))])
   \<and> OasisMemoryUsage_call (\<lambda>rss. Inl ValueError) [800] [4000] 0
       \<lparr>memory = 3, memory_vm = 4, prev = 1, prev_vm = 2\<rparr> ''mesh'' True =
     (Inl ValueError, \<lparr>memory = 3, memory_vm = 4, prev = 3, prev_vm = 4\<rparr>, [])
   \<and> OasisMemoryUsage_call (\<lambda>rss. if rss then Inr (PInt 700) else Inl IndexError)
       [800] [4000] 0 \<lparr>memory = 3, memory_vm = 4, prev = 1, prev_vm = 2\<rparr> ''mesh'' True =
     (Inl IndexError, \<lparr>memory = 1500, memory_vm = 4, prev = 3, prev_vm = 4\<rparr>, [])"
  using OasisMemoryUsage_delta
    [where ?probe1.0 = "\<lambda>rss. Inr (PInt (if rss then 500 else 2000))"
       and ?a1.0 = 500 and ?b1.0 = 2000 and ?others1.0 = "[600]" and ?others_vm1.0 = "[2500]"
       and ?rank1.0 = 0 and self = "\<lparr>memory = 3, memory_vm = 4, prev = 1, prev_vm = 2\<rparr>"
       and ?s1.0 = "''Start''" and ?verbose1.0 = False
       and ?probe2.0 = "\<lambda>rss. Inr (PInt (if rss then 700 else 3000))"
       and ?a2.0 = 700 and ?b2.0 = 3000 and ?others2.0 = "[800]" and ?others_vm2.0 = "[4000]"
       and ?rank2.0 = 0 and ?s2.0 = "''mesh''" and ?verbose2.0 = True
       and ?probe3.0 = "\<lambda>rss. Inl ValueError" and e = ValueError
       and ?others3.0 = "[800]" and ?others_vm3.0 = "[4000]" and ?rank3.0 = 0
       and ?s3.0 = "''mesh''" and ?verbose3.0 = True
       and ?probe4.0 = "\<lambda>rss. if rss then Inr (PInt 700) else Inl IndexError"
       and ?a4.0 = 700 and e' = IndexError
       and ?others4.0 = "[800]" and ?others_vm4.0 = "[4000]" and ?rank4.0 = 0
       and ?s4.0 = "''mesh''" and ?verbose4.0 = True]
  by (simp add: Let_def)

text \<open>
  The cumulative value can be negative: nothing in \<^verbatim>\<open>__call__\<close> or in the fallback
  probe checks the sign of a reading. With a process status output whose second token is \<^verbatim>\<open>-5\<close>, two
  consecutive calls on one process both return and the cumulative value after the
  second is \<open>-5\<close>.
\<close>

theorem OasisMemoryUsage_negative_reading:
  "OasisMemoryUsage_call (getMemoryUsage None evaluates_negative ps_prints_negative 4242)
     [] [] 0
     (fst (snd (OasisMemoryUsage_init
                  (getMemoryUsage None evaluates_negative ps_prints_negative 4242)
                  [] [] 0 ''Start'')))
     ''mesh'' False =
   (Inr (), \<lparr>memory = - 5, memory_vm = - 5, prev = - 5, prev_vm = - 5\<rparr>, [])"
  by (simp add: OasisMemoryUsage_init_def OasisMemoryUsage_call_def MPI_sum_def
      getMemoryUsage_def getMemoryUsage_fallback_def ps_prints_negative_def
      evaluates_negative_def py_eval_def is_decimal_literal_def is_digit_def py_split_def
      is_space_def Let_def)

section \<open>The fallback memory probe\<close>

lemma digit_table:
  "list_all (\<lambda>d. is_digit (digit_char d) \<and> digit_val (digit_char d) = d
      \<and> (digit_char d = CHR ''0'' \<longleftrightarrow> d = 0)) [0..<10]"
  by code_simp

lemma digit_char_props:
  assumes "d < 10"
  shows "is_digit (digit_char d)" and "digit_val (digit_char d) = d"
    and "digit_char d = CHR ''0'' \<longleftrightarrow> d = 0"
proof -
  from assms have "d \<in> set [0..<10]" by simp
  with digit_table have "is_digit (digit_char d) \<and> digit_val (digit_char d) = d
      \<and> (digit_char d = CHR ''0'' \<longleftrightarrow> d = 0)"
    unfolding list_all_iff by blast
  then show "is_digit (digit_char d)" and "digit_val (digit_char d) = d"
    and "digit_char d = CHR ''0'' \<longleftrightarrow> d = 0"
    by simp_all
qed

lemma str_nat_props:
  "str_nat n \<noteq> [] \<and> list_all is_digit (str_nat n)
   \<and> (hd (str_nat n) = CHR ''0'' \<longrightarrow> n = 0)
   \<and> (n < 10 \<longrightarrow> length (str_nat n) = 1)
   \<and> foldl (\<lambda>k c. 10 * k + digit_val c) a (str_nat n) =
       a * 10 ^ length (str_nat n) + n"
proof (induction n arbitrary: a rule: str_nat.induct)
  case (1 n)
  show ?case
  proof (cases "n < 10")
    case True
    then show ?thesis
      by (subst (1 2 3 4 5 6) str_nat.simps) (simp add: digit_char_props)
  next
    case False
    note ih = "1.IH" [OF False]
    have m: "n mod 10 < 10" by simp
    have s: "str_nat n = str_nat (n div 10) @ [digit_char (n mod 10)]"
      using False by (subst str_nat.simps) simp
    have nz: "n div 10 \<noteq> 0" using False by simp
    from ih [of a] nz False show ?thesis
      unfolding s
      by (simp add: digit_char_props [OF m] algebra_simps)
  qed
qed

lemma decimal_str_nat:
  "is_decimal_literal (str_nat n) \<and> decimal_value (str_nat n) = n"
proof -
  note p = str_nat_props [of n 0]
  have "length (str_nat n) = 1 \<or> hd (str_nat n) \<noteq> CHR ''0''"
  proof (cases "n < 10")
    case True
    with p show ?thesis by simp
  next
    case False
    with p show ?thesis by auto
  qed
  with p show ?thesis
    by (simp add: is_decimal_literal_def decimal_value_def)
qed

text \<open>
  C7. When the import of \<^verbatim>\<open>fenicstools\<close> fails, \<^verbatim>\<open>getMemoryUsage\<close> is the fallback. It
  asks \<^verbatim>\<open>ps\<close> for \<open>rss\<close> (for \<open>vsz\<close> when \<open>rss\<close> is false) of the process and splits the
  output at whitespace. With fewer than two tokens it raises \<^verbatim>\<open>IndexError\<close>. When the
  second token is a decimal integer literal, it returns that integer: for the decimal
  rendering of a number \<open>n\<close>, it returns \<open>n\<close>. Any other second token is evaluated as an
  expression: a name of the frame gives its value without raising (\<open>rss\<close> the flag,
  \<open>mypid\<close> the process id, \<open>mymemory\<close> the token itself), and for all other text the
  accessor returns or raises what the interpreter does. It never substitutes a
  default.
\<close>

theorem getMemoryUsage_fallback_behaviour:
  assumes "toks = py_split (getoutput (''ps -o '' @ (if rss then ''rss'' else ''vsz'') @ '' ''
                                       @ str_int getpid))"
  shows "getMemoryUsage None evaluate getoutput getpid rss =
           getMemoryUsage_fallback evaluate getoutput getpid rss
         \<and> (length toks < 2 \<longrightarrow>
              getMemoryUsage None evaluate getoutput getpid rss = Inl IndexError)
         \<and> (2 \<le> length toks \<and> is_decimal_literal (toks ! 1) \<longrightarrow>
              getMemoryUsage None evaluate getoutput getpid rss =
                Inr (PInt (int (decimal_value (toks ! 1)))))
         \<and> (2 \<le> length toks \<and> toks ! 1 = str_nat n \<longrightarrow>
              getMemoryUsage None evaluate getoutput getpid rss = Inr (PInt (int n)))
         \<and> (2 \<le> length toks \<and> \<not> is_decimal_literal (toks ! 1) \<and> toks ! 1 = ''rss'' \<longrightarrow>
              getMemoryUsage None evaluate getoutput getpid rss = Inr (PBool rss))
         \<and> (2 \<le> length toks \<and> \<not> is_decimal_literal (toks ! 1)
              \<and> toks ! 1 \<notin> {''mypid'', ''rss'', ''mymemory''} \<longrightarrow>
              getMemoryUsage None evaluate getoutput getpid rss = evaluate (toks ! 1))
         \<and> (2 \<le> length toks \<and> toks ! 1 = ''mypid'' \<longrightarrow>
              getMemoryUsage None evaluate getoutput getpid rss = Inr (PInt getpid))
         \<and> (2 \<le> length toks \<and> toks ! 1 = ''mymemory'' \<longrightarrow>
              getMemoryUsage None evaluate getoutput getpid rss = Inr (PStr ''mymemory''))"
proof -
  have t: "(if rss then py_split (getoutput (''ps -o rss '' @ str_int getpid))
            else py_split (getoutput (''ps -o vsz '' @ str_int getpid))) = toks"
    unfolding assms by simp
  have g: "getMemoryUsage None evaluate getoutput getpid rss =
      (case toks of
         t0 # mymemory # rest \<Rightarrow>
           py_eval evaluate
             [(''mypid'', PInt getpid), (''rss'', PBool rss), (''mymemory'', PStr mymemory)]
             mymemory
       | _ \<Rightarrow> Inl IndexError)"
    unfolding getMemoryUsage_def getMemoryUsage_fallback_def Let_def t by simp
  have short: "length toks < 2 \<Longrightarrow>
      getMemoryUsage None evaluate getoutput getpid rss = Inl IndexError"
    unfolding g by (cases toks) (auto split: list.splits)
  have long: "2 \<le> length toks \<Longrightarrow>
      getMemoryUsage None evaluate getoutput getpid rss =
        py_eval evaluate
          [(''mypid'', PInt getpid), (''rss'', PBool rss), (''mymemory'', PStr (toks ! 1))]
          (toks ! 1)"
    unfolding g by (cases toks) (auto split: list.splits)
  have names: "\<not> is_decimal_literal ''mypid''" "\<not> is_decimal_literal ''mymemory''"
    by (simp_all add: is_decimal_literal_def is_digit_def)
  show ?thesis
    using short long decimal_str_nat [of n] names
    by (auto simp: py_eval_def getMemoryUsage_def)
qed

theorem getMemoryUsage_fallback_behaviour_witness:
  "getMemoryUsage None no_further_names
     (\<lambda>cmd. if cmd = ''ps -o rss 4242'' then ''  RSS'' @ [CHR 0x0A] @ ''51234'' else [])
     4242 True = Inr (PInt 51234)
   \<and> getMemoryUsage None no_further_names (\<lambda>cmd. ''RSS'') 4242 True = Inl IndexError
   \<and> getMemoryUsage None no_further_names (\<lambda>cmd. ''sh: ps: not found'') 4242 False =
       Inl NameError"
proof -
  let ?G1 = "\<lambda>cmd. if cmd = ''ps -o rss 4242'' then ''  RSS'' @ [CHR 0x0A] @ ''51234'' else []"
  let ?G2 = "(\<lambda>cmd. ''RSS'') :: string \<Rightarrow> string"
  let ?G3 = "(\<lambda>cmd. ''sh: ps: not found'') :: string \<Rightarrow> string"
  have p: "str_int 4242 = ''4242''"
    by (simp add: str_int_def str_nat.simps digit_char_def)
  have d1: "is_decimal_literal ''51234''"
    by (simp add: is_decimal_literal_def is_digit_def)
  have d2: "decimal_value ''51234'' = 51234"
    by (simp add: decimal_value_def digit_val_def)
  have d3: "\<not> is_decimal_literal ''ps:''"
    by (simp add: is_decimal_literal_def is_digit_def)
  have s1: "py_split (''  RSS'' @ [CHR 0x0A] @ ''51234'') = [''RSS'', ''51234'']"
    by (simp add: py_split_def is_space_def)
  have s2: "py_split ''RSS'' = [''RSS'']"
    by (simp add: py_split_def is_space_def)
  have s3: "py_split ''sh: ps: not found'' = [''sh:'', ''ps:'', ''not'', ''found'']"
    by (simp add: py_split_def is_space_def)
  have h1: "[''RSS'', ''51234''] =
      py_split (?G1 (''ps -o '' @ (if True then ''rss'' else ''vsz'') @ '' '' @ str_int 4242))"
    unfolding p using s1 by simp
  have h2: "[''RSS''] =
      py_split (?G2 (''ps -o '' @ (if True then ''rss'' else ''vsz'') @ '' '' @ str_int 4242))"
    using s2 by simp
  have h3: "[''sh:'', ''ps:'', ''not'', ''found''] =
      py_split (?G3 (''ps -o '' @ (if False then ''rss'' else ''vsz'') @ '' '' @ str_int 4242))"
    using s3 by simp
  have r1: "getMemoryUsage None no_further_names ?G1 4242 True = Inr (PInt 51234)"
    using getMemoryUsage_fallback_behaviour
        [where getoutput = "?G1" and rss = True and getpid = 4242 and evaluate = no_further_names
           and n = 0, OF h1, THEN conjunct2, THEN conjunct2, THEN conjunct1] d1 d2
    by simp
  have r2: "getMemoryUsage None no_further_names ?G2 4242 True = Inl IndexError"
    using getMemoryUsage_fallback_behaviour
        [where getoutput = "?G2" and rss = True and getpid = 4242 and evaluate = no_further_names
           and n = 0, OF h2, THEN conjunct2, THEN conjunct1]
    by simp
  have r3: "getMemoryUsage None no_further_names ?G3 4242 False = Inl NameError"
    using getMemoryUsage_fallback_behaviour
        [where getoutput = "?G3" and rss = False and getpid = 4242 and evaluate = no_further_names
           and n = 0, OF h3, THEN conjunct2, THEN conjunct2, THEN conjunct2, THEN conjunct2,
           THEN conjunct2, THEN conjunct1] d3
    by (simp add: no_further_names_def)
  from r1 r2 r3 show ?thesis by blast
qed

text \<open>
  A process status output that is not numeric and yet raises nothing: its second token
  is \<open>rss\<close>, a name of the frame, and the accessor returns \<^verbatim>\<open>True\<close>.
\<close>

theorem getMemoryUsage_nonnumeric_no_raise:
  "getMemoryUsage None no_further_names ps_prints_rss 4242 True = Inr (PBool True)
   \<and> \<not> is_decimal_literal ''rss''"
  by (simp add: getMemoryUsage_def getMemoryUsage_fallback_def ps_prints_rss_def py_split_def
      is_space_def py_eval_def is_decimal_literal_def is_digit_def)

end
